theory Spec2Isabelle
  imports Complex_Main
begin

section \<open>Supplies and the recipe graph (src/routes/supplies.js)\<close>

text \<open>
  Numbers are JavaScript numbers in the source; the model takes them as exact rationals,
  so the arithmetic of the cost formulas is exact, and rounding, \<open>NaN\<close> and the infinities
  stay outside the model. A column that is \<open>null\<close> is \<open>None\<close>.
\<close>

record recipe_line =
  supplyId :: string
  quantity :: rat

text \<open>
  The internal supply object built by \<open>rowToSupplyInternal\<close> and by the create and update
  handlers (the \<open>candidate\<close>): \<open>recipe\<close> is always an array there, empty when the row has
  none.
\<close>

record supply_obj =
  supply_id :: string
  supply_name :: string
  supply_type :: string
  supply_unit :: "string option"
  purchase_price :: "rat option"
  purchase_quantity :: "rat option"
  recipe :: "recipe_line list"
  yield_amount :: "rat option"
  yield_unit :: "string option"

text \<open>
  \<open>suppliesById\<close> is filled by \<open>suppliesById[row.id] = rowToSupplyInternal(row)\<close> and
  \<open>suppliesById[supplyId] = candidate\<close>: every entry is stored under its own id. It is
  modelled by the list of its supplies, looked up by id; an assignment replaces the entry
  of that id. For a key that the object only inherits (\<open>constructor\<close>, say) the source
  finds an object without \<open>recipe\<close> and returns \<open>null\<close> for it, which is also what a
  missing entry gives.
\<close>

type_synonym supplies_by_id = "supply_obj list"

definition lookup_supply :: "supplies_by_id \<Rightarrow> string \<Rightarrow> supply_obj option" where
  "lookup_supply g k = find (\<lambda>s. supply_id s = k) g"

definition assign_supply :: "supply_obj \<Rightarrow> supplies_by_id \<Rightarrow> supplies_by_id" where
  "assign_supply c g = c # filter (\<lambda>s. supply_id s \<noteq> supply_id c) g"

datatype error = CircularReference

type_synonym cost_result = "error + rat option"

text \<open>
  The body of the \<open>for (const line of supply.recipe)\<close> loop of \<open>getSupplyCostPerUnit\<close>,
  with the recursive call as the parameter \<open>f\<close>: a missing supply or a \<open>null\<close> sub-cost
  returns \<open>null\<close> at once, an exception of the recursive call leaves the loop, and
  otherwise \<open>total += subCost * line.quantity\<close>.
\<close>

fun recipe_loop :: "(supply_obj \<Rightarrow> cost_result) \<Rightarrow> supplies_by_id \<Rightarrow> recipe_line list \<Rightarrow> rat \<Rightarrow> cost_result" where
  "recipe_loop f g [] tot = Inr (Some tot)"
| "recipe_loop f g (line # rest) tot =
     (case lookup_supply g (supplyId line) of
        None \<Rightarrow> Inr None
      | Some sub \<Rightarrow>
          (case f sub of
             Inl e \<Rightarrow> Inl e
           | Inr None \<Rightarrow> Inr None
           | Inr (Some subCost) \<Rightarrow> recipe_loop f g rest (tot + subCost * quantity line)))"

lemma recipe_loop_cong [fundef_cong]:
  assumes "g = g'" and "ls = ls'" and "t = t'"
    and "\<And>line sub. line \<in> set ls' \<Longrightarrow> lookup_supply g' (supplyId line) = Some sub \<Longrightarrow> f sub = f' sub"
  shows "recipe_loop f g ls t = recipe_loop f' g' ls' t'"
  using assms(4) unfolding assms(1,2,3)
proof (induction ls' arbitrary: t')
  case Nil
  show ?case by simp
next
  case (Cons line rest)
  show ?case
  proof (cases "lookup_supply g' (supplyId line)")
    case None
    then show ?thesis by simp
  next
    case (Some sub)
    have same: "f sub = f' sub"
      by (rule Cons.prems[of line sub]) (simp_all add: Some)
    have "recipe_loop f g' rest t'' = recipe_loop f' g' rest t''" for t''
      by (rule Cons.IH) (rule Cons.prems, simp_all)
    then show ?thesis using Some same by (simp split: sum.splits option.splits)
  qed
qed

text \<open>
  \<open>getSupplyCostPerUnit(supply, suppliesById, visited)\<close>. Every recursive call receives
  \<open>new Set(visited)\<close>, a copy taken after \<open>visited.add(supply.id)\<close>, so the callee's own
  \<open>add\<close> and \<open>delete\<close> never reach the caller's set; the \<open>finally\<close> block only restores the
  set of the caller. The thrown Error is \<open>Inl CircularReference\<close>, \<open>null\<close> is
  \<open>Inr None\<close>.
\<close>

function getSupplyCostPerUnit :: "supply_obj \<Rightarrow> supplies_by_id \<Rightarrow> string set \<Rightarrow> cost_result" where
  "getSupplyCostPerUnit s g visited =
     (if supply_id s \<in> visited then Inl CircularReference
      else if supply_type s = ''purchased'' then
        (case purchase_price s of
           None \<Rightarrow> Inr None
         | Some price \<Rightarrow>
             (case purchase_quantity s of
                None \<Rightarrow> Inr None
              | Some qty \<Rightarrow> if qty \<le> 0 then Inr None else Inr (Some (price / qty))))
      else if recipe s = [] then Inr None
      else
        (case yield_amount s of
           None \<Rightarrow> Inr None
         | Some y \<Rightarrow>
             if y \<le> 0 then Inr None
             else
               (case recipe_loop (\<lambda>sub. getSupplyCostPerUnit sub g (insert (supply_id s) visited))
                       g (recipe s) 0 of
                  Inl e \<Rightarrow> Inl e
                | Inr None \<Rightarrow> Inr None
                | Inr (Some tot) \<Rightarrow> Inr (Some (tot / y)))))"
  by pat_completeness auto

lemma lookup_supply_Some:
  "lookup_supply g k = Some s \<Longrightarrow> s \<in> set g \<and> supply_id s = k"
  unfolding lookup_supply_def by (induction g) (auto split: if_splits)

termination getSupplyCostPerUnit
proof (relation "measure (\<lambda>(s, g, visited). card ((supply_id ` set g \<union> {supply_id s}) - visited))")
  show "wf (measure (\<lambda>(s, g, visited). card ((supply_id ` set g \<union> {supply_id s}) - visited)))"
    by simp
next
  fix s :: supply_obj and g :: supplies_by_id and visited :: "string set"
    and y :: rat and line :: recipe_line and sub :: supply_obj
  assume nv: "supply_id s \<notin> visited"
    and lk: "lookup_supply g (supplyId line) = Some sub"
  from lk have sub: "sub \<in> set g" by (simp add: lookup_supply_Some)
  let ?U = "supply_id ` set g"
  have eq: "?U \<union> {supply_id sub} = ?U" using sub by auto
  have fin: "finite ((?U \<union> {supply_id s}) - visited)" by simp
  have "(?U - insert (supply_id s) visited) \<subset> ((?U \<union> {supply_id s}) - visited)"
    using nv by auto
  then have "card (?U - insert (supply_id s) visited) < card ((?U \<union> {supply_id s}) - visited)"
    using fin by (rule psubset_card_mono[rotated])
  then show "((sub, g, insert (supply_id s) visited), (s, g, visited))
      \<in> measure (\<lambda>(s, g, visited). card ((supply_id ` set g \<union> {supply_id s}) - visited))"
    using eq by simp
qed

declare getSupplyCostPerUnit.simps [simp del]

text \<open>
  The same function with the recursion depth made explicit: \<open>depth\<close> is the number of
  nested calls allowed, \<open>None\<close> means that the walk would go deeper.
\<close>

fun recipe_loop_depth :: "(supply_obj \<Rightarrow> cost_result option) \<Rightarrow> supplies_by_id \<Rightarrow> recipe_line list \<Rightarrow> rat \<Rightarrow> cost_result option" where
  "recipe_loop_depth f g [] tot = Some (Inr (Some tot))"
| "recipe_loop_depth f g (line # rest) tot =
     (case lookup_supply g (supplyId line) of
        None \<Rightarrow> Some (Inr None)
      | Some sub \<Rightarrow>
          (case f sub of
             None \<Rightarrow> None
           | Some (Inl e) \<Rightarrow> Some (Inl e)
           | Some (Inr None) \<Rightarrow> Some (Inr None)
           | Some (Inr (Some subCost)) \<Rightarrow> recipe_loop_depth f g rest (tot + subCost * quantity line)))"

fun getSupplyCostPerUnit_depth :: "nat \<Rightarrow> supply_obj \<Rightarrow> supplies_by_id \<Rightarrow> string set \<Rightarrow> cost_result option" where
  "getSupplyCostPerUnit_depth 0 s g visited = None"
| "getSupplyCostPerUnit_depth (Suc depth) s g visited =
     (if supply_id s \<in> visited then Some (Inl CircularReference)
      else if supply_type s = ''purchased'' then
        (case purchase_price s of
           None \<Rightarrow> Some (Inr None)
         | Some price \<Rightarrow>
             (case purchase_quantity s of
                None \<Rightarrow> Some (Inr None)
              | Some qty \<Rightarrow> if qty \<le> 0 then Some (Inr None) else Some (Inr (Some (price / qty)))))
      else if recipe s = [] then Some (Inr None)
      else
        (case yield_amount s of
           None \<Rightarrow> Some (Inr None)
         | Some y \<Rightarrow>
             if y \<le> 0 then Some (Inr None)
             else
               (case recipe_loop_depth
                       (\<lambda>sub. getSupplyCostPerUnit_depth depth sub g (insert (supply_id s) visited))
                       g (recipe s) 0 of
                  None \<Rightarrow> None
                | Some (Inl e) \<Rightarrow> Some (Inl e)
                | Some (Inr None) \<Rightarrow> Some (Inr None)
                | Some (Inr (Some tot)) \<Rightarrow> Some (Inr (Some (tot / y))))))"

text \<open>
  The recursive calls of one activation: \<open>resolution_step g (s, visited) (sub, visited')\<close>
  holds when \<open>getSupplyCostPerUnit s g visited\<close> reaches the call on \<open>sub\<close>, that is when it
  passes the entry check, is not purchased, has a recipe and a positive yield, and every
  recipe line before the one of \<open>sub\<close> gave a number. A resolution path is a chain of such
  steps.
\<close>

inductive resolution_step :: "supplies_by_id \<Rightarrow> supply_obj \<times> string set \<Rightarrow> supply_obj \<times> string set \<Rightarrow> bool"
  for g :: supplies_by_id where
  call: "\<lbrakk>supply_id s \<notin> visited; supply_type s \<noteq> ''purchased'';
          yield_amount s = Some y; 0 < y;
          recipe s = before @ line # after;
          \<forall>l \<in> set before. \<exists>sub' c. lookup_supply g (supplyId l) = Some sub' \<and>
             getSupplyCostPerUnit sub' g (insert (supply_id s) visited) = Inr (Some c);
          lookup_supply g (supplyId line) = Some sub\<rbrakk>
         \<Longrightarrow> resolution_step g (s, visited) (sub, insert (supply_id s) visited)"

text \<open>The recipe references of the graph: the ids named by the recipe stored under an id.\<close>

definition recipe_refs :: "supplies_by_id \<Rightarrow> string \<Rightarrow> string list" where
  "recipe_refs g k = (case lookup_supply g k of None \<Rightarrow> [] | Some s \<Rightarrow> map supplyId (recipe s))"

definition recipe_edges :: "supplies_by_id \<Rightarrow> (string \<times> string) set" where
  "recipe_edges g = {(a, b). b \<in> set (recipe_refs g a)}"

subsection \<open>The list handler (GET /)\<close>

text \<open>
  \<open>rows\<close> are the table rows after \<open>rowToSupplyInternal\<close>. The dictionary is filled row by
  row, a later row replacing an earlier one with the same id.
\<close>

definition supplies_by_id_of :: "supply_obj list \<Rightarrow> supplies_by_id" where
  "supplies_by_id_of rows = foldl (\<lambda>g row. assign_supply row g) [] rows"

text \<open>
  One item of the response: the row with \<open>costPerUnit\<close>, which stays \<open>null\<close> when the
  resolution throws (the \<open>catch\<close> block is empty) or returns \<open>null\<close>.
\<close>

definition cost_or_null :: "supplies_by_id \<Rightarrow> string \<Rightarrow> rat option" where
  "cost_or_null g k =
     (case lookup_supply g k of
        None \<Rightarrow> None
      | Some s \<Rightarrow> (case getSupplyCostPerUnit s g {} of Inl e \<Rightarrow> None | Inr c \<Rightarrow> c))"

definition list_supplies :: "supply_obj list \<Rightarrow> (supply_obj \<times> rat option) list" where
  "list_supplies rows =
     (let suppliesById = supplies_by_id_of rows
      in map (\<lambda>row. (row, cost_or_null suppliesById (supply_id row))) rows)"

subsection \<open>Validation of a candidate (POST / and PUT /:id)\<close>

text \<open>
  A recipe line as it arrives in the request body: either key \<open>supplyId\<close> or \<open>supply_id\<close>,
  each possibly missing, and a quantity possibly missing. An element of the array may be
  \<open>null\<close>.
\<close>

record raw_line =
  raw_supplyId :: "string option"
  raw_supply_id :: "string option"
  raw_quantity :: "rat option"

fun normalizeRecipeLine :: "raw_line option \<Rightarrow> recipe_line option" where
  "normalizeRecipeLine None = None"
| "normalizeRecipeLine (Some line) =
     (case raw_quantity line of
        None \<Rightarrow> None
      | Some q \<Rightarrow>
          (case (case raw_supplyId line of Some i \<Rightarrow> Some i | None \<Rightarrow> raw_supply_id line) of
             None \<Rightarrow> None
           | Some i \<Rightarrow> if i = [] then None else Some \<lparr>supplyId = i, quantity = q\<rparr>))"

text \<open>\<open>recipe.map(normalizeRecipeLine).filter(Boolean)\<close>\<close>

definition normalize_recipe :: "raw_line option list \<Rightarrow> recipe_line list" where
  "normalize_recipe lines = List.map_filter normalizeRecipeLine lines"

record supply_body =
  body_name :: "string option"
  body_type :: "string option"
  body_unit :: "string option"
  body_purchasePrice :: "rat option"
  body_purchaseQuantity :: "rat option"
  body_recipe :: "raw_line option list option"
  body_yieldAmount :: "rat option"
  body_yieldUnit :: "string option"

definition VALID_UNITS :: "string list" where
  "VALID_UNITS = [''g'', ''ml'', ''unidad'']"

text \<open>The 400 responses of the two handlers, in the order of their checks.\<close>

datatype validation_error =
    NameAndTypeRequired
  | TypeNotPurchasedOrComposed
  | PurchasedRequiresUnit
  | PurchasedRequiresQuantity
  | ComposedRequiresRecipeLine
  | ComposedRequiresYield
  | SelfReferenceInRecipe
  | CircularReferenceInRecipe

definition falsy :: "string option \<Rightarrow> bool" where
  "falsy v = (v = None \<or> v = Some [])"

text \<open>
  The checks that POST / and PUT /:id share, up to the cycle check; \<open>sid\<close> is the id
  the handler has settled on (\<open>supplyId\<close> in POST, \<open>id\<close> in PUT), \<open>rows\<close> the supplies table. The result is the rejection or
  the candidate that goes on to be written.
\<close>

definition validate_supply :: "string \<Rightarrow> supply_body \<Rightarrow> supply_obj list \<Rightarrow> validation_error + supply_obj" where
  "validate_supply sid body rows =
     (if falsy (body_name body) \<or> falsy (body_type body) then Inl NameAndTypeRequired
      else let type = the (body_type body) in
      if type \<noteq> ''purchased'' \<and> type \<noteq> ''composed'' then Inl TypeNotPurchasedOrComposed
      else if type = ''purchased'' \<and>
              (falsy (body_unit body) \<or> the (body_unit body) \<notin> set VALID_UNITS)
        then Inl PurchasedRequiresUnit
      else if type = ''purchased'' \<and>
              (case body_purchaseQuantity body of None \<Rightarrow> True | Some qty \<Rightarrow> qty \<le> 0)
        then Inl PurchasedRequiresQuantity
      else let recipeArr = (case body_recipe body of None \<Rightarrow> [] | Some r \<Rightarrow> normalize_recipe r) in
      if type = ''composed'' \<and> recipeArr = [] then Inl ComposedRequiresRecipeLine
      else if type = ''composed'' \<and>
              ((case body_yieldAmount body of None \<Rightarrow> True | Some y \<Rightarrow> y \<le> 0) \<or>
               falsy (body_yieldUnit body) \<or> the (body_yieldUnit body) \<notin> set VALID_UNITS)
        then Inl ComposedRequiresYield
      else if type = ''composed'' \<and> (\<exists>line \<in> set recipeArr. supplyId line = sid)
        then Inl SelfReferenceInRecipe
      else
        let candidate = \<lparr>supply_id = sid, supply_name = the (body_name body),
              supply_type = type,
              supply_unit = (if type = ''purchased'' then body_unit body else None),
              purchase_price = (if type = ''purchased'' then body_purchasePrice body else None),
              purchase_quantity = (if type = ''purchased'' then body_purchaseQuantity body else None),
              recipe = (if type = ''composed'' then recipeArr else []),
              yield_amount = (if type = ''composed'' then body_yieldAmount body else None),
              yield_unit = (if type = ''composed'' then body_yieldUnit body else None)\<rparr>;
            suppliesById = assign_supply candidate (supplies_by_id_of rows)
        in (case getSupplyCostPerUnit candidate suppliesById {} of
              Inl CircularReference \<Rightarrow> Inl CircularReferenceInRecipe
            | Inr c \<Rightarrow> Inr candidate))"

text \<open>
  \<open>String.prototype.trim\<close> on the ASCII white space characters, and the id of a created
  supply: \<open>id && String(id).trim() ? String(id).trim() : randomUUID()\<close>, with the fresh
  UUID as a parameter. PUT /:id takes the id from the route.
\<close>

definition is_space :: "char \<Rightarrow> bool" where
  "is_space c = (c \<in> set [CHR '' '', CHR 0x09, CHR 0x0A, CHR 0x0B, CHR 0x0C, CHR 0x0D])"

definition trim :: "string \<Rightarrow> string" where
  "trim s = rev (dropWhile is_space (rev (dropWhile is_space s)))"

definition create_supply :: "string option \<Rightarrow> string \<Rightarrow> supply_body \<Rightarrow> supply_obj list \<Rightarrow> validation_error + supply_obj" where
  "create_supply body_id uuid body rows =
     validate_supply
       (case body_id of
          None \<Rightarrow> uuid
        | Some i \<Rightarrow> if i \<noteq> [] \<and> trim i \<noteq> [] then trim i else uuid)
       body rows"

definition update_supply :: "string \<Rightarrow> supply_body \<Rightarrow> supply_obj list \<Rightarrow> validation_error + supply_obj" where
  "update_supply param_id body rows = validate_supply param_id body rows"

section \<open>Closing an open account (src/routes/openAccounts.js, src/unnamed/part_003)\<close>

text \<open>The rows of the \<open>orders\<close> and \<open>open_accounts\<close> tables; \<open>created_at\<close> is a timestamp.\<close>

record order_row =
  order_id :: string
  customer_name :: string
  order_total :: rat
  order_status :: string
  payment_method :: string
  mercado_pago_account_id :: "string option"
  cash_register_id :: "string option"
  open_account_id :: "string option"
  closed_open_account_id :: "string option"
  closed_open_account_name :: "string option"
  order_discount :: "rat option"
  discount_reason :: "string option"
  order_notes :: "string option"
  created_at :: nat

record open_account_row =
  account_id :: string
  account_name :: string
  account_status :: string
  payment_method_used :: "string option"
  account_mercado_pago_account_id :: "string option"
  closed_discount :: "rat option"
  closed_discount_reason :: "string option"

record order_item_row =
  item_order_id :: string
  item_menu_item_id :: string
  item_name :: string
  item_description :: string
  item_price :: rat
  item_category :: string
  item_type :: string
  item_quantity :: int
  item_notes :: "string option"

record store =
  orders :: "order_row list"
  order_items :: "order_item_row list"
  open_accounts :: "open_account_row list"
  settings :: "string \<rightharpoonup> string"

record close_body =
  paymentMethod :: "string option"
  mercadoPagoAccountId :: "string option"
  discount :: "rat option"
  discountReason :: "string option"

datatype close_error =
    InvalidPaymentMethod
  | MercadoPagoAccountRequired
  | AccountNotFound
  | AccountAlreadyClosed

text \<open>
  \<open>SELECT ... FROM orders WHERE open_account_id = $1 ORDER BY created_at DESC LIMIT 1\<close>:
  the order of the account with the greatest \<open>created_at\<close>; among equal timestamps the
  model takes the first in table order.
\<close>

fun newest :: "order_row list \<Rightarrow> order_row option" where
  "newest [] = None"
| "newest (x # xs) =
     (case newest xs of
        None \<Rightarrow> Some x
      | Some p \<Rightarrow> if created_at x < created_at p then Some p else Some x)"

definition last_order_of :: "string \<Rightarrow> order_row list \<Rightarrow> order_row option" where
  "last_order_of acc rows = newest (filter (\<lambda>x. open_account_id x = Some acc) rows)"

text \<open>
  The first \<open>UPDATE orders ... WHERE open_account_id = $3\<close>: payment fields and account
  linkage of every order of the account; \<open>settle_order\<close> is its effect on one row.
\<close>

definition settle_order :: "string \<Rightarrow> string \<Rightarrow> string option \<Rightarrow> string \<Rightarrow> order_row \<Rightarrow> order_row" where
  "settle_order acc method mp name x =
     (if open_account_id x = Some acc
      then x\<lparr>payment_method := method, mercado_pago_account_id := mp,
             closed_open_account_id := Some acc, closed_open_account_name := Some name,
             open_account_id := None\<rparr>
      else x)"

definition settle_orders :: "string \<Rightarrow> string \<Rightarrow> string option \<Rightarrow> string \<Rightarrow> order_row list \<Rightarrow> order_row list" where
  "settle_orders acc method mp name rows = map (settle_order acc method mp name) rows"

text \<open>
  The \<open>if (lastOrder)\<close> block: the new total, discount and reason are computed from the row
  read before, and written by \<open>UPDATE orders SET total = $1, discount = $2,
  discount_reason = $3 WHERE id = $4\<close>; \<open>discount_order\<close> is the effect on one row.
\<close>

definition discount_order :: "order_row \<Rightarrow> rat \<Rightarrow> string \<Rightarrow> order_row \<Rightarrow> order_row" where
  "discount_order lastOrder discountAmount reason x =
     (let existingDiscount = (case order_discount lastOrder of None \<Rightarrow> 0 | Some d \<Rightarrow> d);
          existingReason = (case discount_reason lastOrder of None \<Rightarrow> [] | Some r \<Rightarrow> trim r);
          newDiscount = existingDiscount + discountAmount;
          accountReasonPart = ''Descuento de la cuenta: '' @ trim reason;
          newReason = (if existingReason \<noteq> [] then existingReason @ '' '' @ accountReasonPart
                       else accountReasonPart);
          currentTotal = order_total lastOrder;
          newTotal = max 0 (currentTotal - discountAmount)
      in if order_id x = order_id lastOrder
         then x\<lparr>order_total := newTotal, order_discount := Some newDiscount,
                discount_reason := Some newReason\<rparr>
         else x)"

definition discount_last_order :: "order_row \<Rightarrow> rat \<Rightarrow> string \<Rightarrow> order_row list \<Rightarrow> order_row list" where
  "discount_last_order lastOrder discountAmount reason rows =
     map (discount_order lastOrder discountAmount reason) rows"

text \<open>
  The condition under which the handler reads the last order:
  \<open>discount != null && Number(discount) > 0 && discountReason && String(discountReason).trim()\<close>.
\<close>

definition discount_requested :: "close_body \<Rightarrow> bool" where
  "discount_requested body =
     ((case discount body of None \<Rightarrow> False | Some d \<Rightarrow> 0 < d) \<and>
      \<not> falsy (discountReason body) \<and> trim (the (discountReason body)) \<noteq> [])"

text \<open>
  POST /:id/close. All statements between BEGIN and COMMIT succeed in the model, so the
  transaction always commits; the result is the 4xx rejection or the store after COMMIT.
\<close>

definition close_account :: "string \<Rightarrow> close_body \<Rightarrow> store \<Rightarrow> close_error + store" where
  "close_account acc body st =
     (if falsy (paymentMethod body) \<or> the (paymentMethod body) \<notin> set [''efectivo'', ''mercadopago'']
        then Inl InvalidPaymentMethod
      else if the (paymentMethod body) = ''mercadopago'' \<and> falsy (mercadoPagoAccountId body)
        then Inl MercadoPagoAccountRequired
      else
        (case find (\<lambda>a. account_id a = acc) (open_accounts st) of
           None \<Rightarrow> Inl AccountNotFound
         | Some accountRow \<Rightarrow>
             if account_status accountRow \<noteq> ''open'' then Inl AccountAlreadyClosed
             else
               let method = the (paymentMethod body);
                   mp = (if method = ''mercadopago'' then mercadoPagoAccountId body else None);
                   lastOrder = (if discount_requested body then last_order_of acc (orders st) else None);
                   settled = settle_orders acc method mp (account_name accountRow) (orders st);
                   discounted = (case lastOrder of
                                   None \<Rightarrow> settled
                                 | Some l \<Rightarrow> discount_last_order l (the (discount body))
                                              (the (discountReason body)) settled);
                   closed = map (\<lambda>a. if account_id a = acc
                              then a\<lparr>account_status := ''closed'', payment_method_used := Some method,
                                     account_mercado_pago_account_id := mp,
                                     closed_discount := discount body,
                                     closed_discount_reason :=
                                       (if \<not> falsy (discountReason body) \<and> trim (the (discountReason body)) \<noteq> []
                                        then Some (trim (the (discountReason body))) else None)\<rparr>
                              else a) (open_accounts st)
               in Inr (st\<lparr>orders := discounted, open_accounts := closed\<rparr>)))"

text \<open>What the transaction of \<open>close_account\<close> does to one order row.\<close>

definition closed_row :: "string \<Rightarrow> close_body \<Rightarrow> store \<Rightarrow> order_row \<Rightarrow> order_row" where
  "closed_row acc body st x =
     (let method = the (paymentMethod body);
          mp = (if method = ''mercadopago'' then mercadoPagoAccountId body else None);
          name = account_name (the (find (\<lambda>a. account_id a = acc) (open_accounts st)));
          y = settle_order acc method mp name x
      in case (if discount_requested body then last_order_of acc (orders st) else None) of
           None \<Rightarrow> y
         | Some l \<Rightarrow> discount_order l (the (discount body)) (the (discountReason body)) y)"

subsection \<open>The second close handler (src/unnamed/part_003)\<close>

text \<open>
  The repository holds POST /:id/close a second time, in src/unnamed/part_003. It differs
  from the handler above in the discount block only: it reads all orders of the account,
  \<open>SELECT ... WHERE open_account_id = $1 ORDER BY created_at DESC\<close> (equal timestamps keep
  table order in the model), and walks them.
\<close>

definition newest_first :: "order_row list \<Rightarrow> order_row list" where
  "newest_first rows = sort_key (\<lambda>x. - int (created_at x)) rows"

text \<open>
  The loop \<open>for (const order of ordersToDiscount)\<close>: \<open>break\<close> when nothing remains,
  \<open>continue\<close> when nothing can be applied to the order, else one
  \<open>UPDATE orders SET total = $1, discount = $2, discount_reason = $3 WHERE id = $4\<close> with
  values computed from the row read before, and \<open>remainingDiscount -= applyHere\<close>.
\<close>

fun distribute_discount :: "string \<Rightarrow> rat \<Rightarrow> order_row list \<Rightarrow> order_row list \<Rightarrow> order_row list" where
  "distribute_discount accountReasonPart remainingDiscount [] rows = rows"
| "distribute_discount accountReasonPart remainingDiscount (row # rest) rows =
     (if remainingDiscount \<le> 0 then rows
      else
        let currentTotal = order_total row;
            applyHere = min remainingDiscount (max 0 currentTotal)
        in if applyHere \<le> 0 then distribute_discount accountReasonPart remainingDiscount rest rows
           else
             let existingDiscount = (case order_discount row of None \<Rightarrow> 0 | Some d \<Rightarrow> d);
                 existingReason = (case discount_reason row of None \<Rightarrow> [] | Some r \<Rightarrow> trim r);
                 newTotal = currentTotal - applyHere;
                 newDiscount = existingDiscount + applyHere;
                 newReason = (if existingReason \<noteq> [] then existingReason @ '' '' @ accountReasonPart
                              else accountReasonPart)
             in distribute_discount accountReasonPart (remainingDiscount - applyHere) rest
                  (map (\<lambda>x. if order_id x = order_id row
                             then x\<lparr>order_total := newTotal, order_discount := Some newDiscount,
                                    discount_reason := Some newReason\<rparr>
                             else x) rows))"

definition close_account_all_orders :: "string \<Rightarrow> close_body \<Rightarrow> store \<Rightarrow> close_error + store" where
  "close_account_all_orders acc body st =
     (if falsy (paymentMethod body) \<or> the (paymentMethod body) \<notin> set [''efectivo'', ''mercadopago'']
        then Inl InvalidPaymentMethod
      else if the (paymentMethod body) = ''mercadopago'' \<and> falsy (mercadoPagoAccountId body)
        then Inl MercadoPagoAccountRequired
      else
        (case find (\<lambda>a. account_id a = acc) (open_accounts st) of
           None \<Rightarrow> Inl AccountNotFound
         | Some accountRow \<Rightarrow>
             if account_status accountRow \<noteq> ''open'' then Inl AccountAlreadyClosed
             else
               let method = the (paymentMethod body);
                   mp = (if method = ''mercadopago'' then mercadoPagoAccountId body else None);
                   ordersToDiscount =
                     (if discount_requested body
                      then newest_first (filter (\<lambda>x. open_account_id x = Some acc) (orders st))
                      else []);
                   settled = settle_orders acc method mp (account_name accountRow) (orders st);
                   discounted =
                     (if ordersToDiscount \<noteq> []
                      then distribute_discount
                             (''Descuento de la cuenta: '' @ trim (the (discountReason body)))
                             (the (discount body)) ordersToDiscount settled
                      else settled);
                   closed = map (\<lambda>a. if account_id a = acc
                              then a\<lparr>account_status := ''closed'', payment_method_used := Some method,
                                     account_mercado_pago_account_id := mp,
                                     closed_discount := discount body,
                                     closed_discount_reason :=
                                       (if \<not> falsy (discountReason body) \<and> trim (the (discountReason body)) \<noteq> []
                                        then Some (trim (the (discountReason body))) else None)\<rparr>
                              else a) (open_accounts st)
               in Inr (st\<lparr>orders := discounted, open_accounts := closed\<rparr>)))"

text \<open>
  The allocation as section 4.4 of the specification words it, on the totals of the tab's
  orders from the newest on: \<open>applyHere = min(remainingDiscount, max(0, order.total))\<close>,
  \<open>remainingDiscount -= applyHere\<close>, stop once nothing remains. The result lists the amount
  applied to each order.
\<close>

fun allocation :: "rat \<Rightarrow> rat list \<Rightarrow> rat list" where
  "allocation remainingDiscount [] = []"
| "allocation remainingDiscount (t # ts) =
     (if remainingDiscount \<le> 0 then replicate (Suc (length ts)) 0
      else let applyHere = min remainingDiscount (max 0 t)
           in applyHere # allocation (remainingDiscount - applyHere) ts)"

text \<open>
  What the walk does to one row of the table: the rows read before the walk are \<open>os\<close>,
  and a row of the table is written when the walk reaches the order with its id.
\<close>

fun walked_row :: "string \<Rightarrow> rat \<Rightarrow> order_row list \<Rightarrow> order_row \<Rightarrow> order_row" where
  "walked_row accountReasonPart remainingDiscount [] y = y"
| "walked_row accountReasonPart remainingDiscount (row # rest) y =
     (if remainingDiscount \<le> 0 then y
      else
        let applyHere = min remainingDiscount (max 0 (order_total row))
        in if applyHere \<le> 0 then walked_row accountReasonPart remainingDiscount rest y
           else walked_row accountReasonPart (remainingDiscount - applyHere) rest
                  (if order_id y = order_id row
                   then y\<lparr>order_total := order_total row - applyHere,
                          order_discount := Some ((case order_discount row of None \<Rightarrow> 0 | Some d \<Rightarrow> d) + applyHere),
                          discount_reason := Some
                            ((case discount_reason row of None \<Rightarrow> []
                              | Some r \<Rightarrow> if trim r = [] then [] else trim r @ '' '')
                             @ accountReasonPart)\<rparr>
                   else y))"

text \<open>The orders the second handler reads for the discount, and what it does to one order row.\<close>

definition orders_to_discount :: "string \<Rightarrow> close_body \<Rightarrow> store \<Rightarrow> order_row list" where
  "orders_to_discount acc body st =
     (if discount_requested body
      then newest_first (filter (\<lambda>x. open_account_id x = Some acc) (orders st))
      else [])"

definition closed_row_all :: "string \<Rightarrow> close_body \<Rightarrow> store \<Rightarrow> order_row \<Rightarrow> order_row" where
  "closed_row_all acc body st x =
     walked_row (''Descuento de la cuenta: '' @ trim (the (discountReason body))) (the (discount body))
       (orders_to_discount acc body st)
       (settle_order acc (the (paymentMethod body))
          (if the (paymentMethod body) = ''mercadopago'' then mercadoPagoAccountId body else None)
          (account_name (the (find (\<lambda>a. account_id a = acc) (open_accounts st)))) x)"

section \<open>Creating an order (src/routes/orders.js)\<close>



























section \<open>Example catalogues\<close>

text \<open>
  Flour is bought at 5 per unit. Dough yields 10 from 2 units of flour. Sauce names a supply
  that does not exist. Supplies \<open>a\<close> and \<open>b\<close> name each other. Pizza uses flour along two
  branches, through dough and through crust.
\<close>

definition flour :: supply_obj where
  "flour = \<lparr>supply_id = ''flour'', supply_name = ''Harina'', supply_type = ''purchased'',
     supply_unit = Some ''g'', purchase_price = Some 5, purchase_quantity = Some 1,
     recipe = [], yield_amount = None, yield_unit = None\<rparr>"

definition dough :: supply_obj where
  "dough = \<lparr>supply_id = ''dough'', supply_name = ''Masa'', supply_type = ''composed'',
     supply_unit = None, purchase_price = None, purchase_quantity = None,
     recipe = [\<lparr>supplyId = ''flour'', quantity = 2\<rparr>], yield_amount = Some 10, yield_unit = Some ''g''\<rparr>"

definition sauce :: supply_obj where
  "sauce = \<lparr>supply_id = ''sauce'', supply_name = ''Salsa'', supply_type = ''composed'',
     supply_unit = None, purchase_price = None, purchase_quantity = None,
     recipe = [\<lparr>supplyId = ''flour'', quantity = 1\<rparr>, \<lparr>supplyId = ''ghost'', quantity = 1\<rparr>],
     yield_amount = Some 1, yield_unit = Some ''ml''\<rparr>"

definition loop_a :: supply_obj where
  "loop_a = \<lparr>supply_id = ''a'', supply_name = ''A'', supply_type = ''composed'',
     supply_unit = None, purchase_price = None, purchase_quantity = None,
     recipe = [\<lparr>supplyId = ''b'', quantity = 1\<rparr>, \<lparr>supplyId = ''ghost'', quantity = 1\<rparr>],
     yield_amount = Some 1, yield_unit = Some ''g''\<rparr>"

definition loop_b :: supply_obj where
  "loop_b = \<lparr>supply_id = ''b'', supply_name = ''B'', supply_type = ''composed'',
     supply_unit = None, purchase_price = None, purchase_quantity = None,
     recipe = [\<lparr>supplyId = ''a'', quantity = 1\<rparr>],
     yield_amount = Some 1, yield_unit = Some ''g''\<rparr>"

definition pizza :: supply_obj where
  "pizza = \<lparr>supply_id = ''pizza'', supply_name = ''Pizza'', supply_type = ''composed'',
     supply_unit = None, purchase_price = None, purchase_quantity = None,
     recipe = [\<lparr>supplyId = ''dough'', quantity = 3\<rparr>, \<lparr>supplyId = ''crust'', quantity = 1\<rparr>],
     yield_amount = Some 2, yield_unit = Some ''unidad''\<rparr>"

definition crust :: supply_obj where
  "crust = \<lparr>supply_id = ''crust'', supply_name = ''Borde'', supply_type = ''composed'',
     supply_unit = None, purchase_price = None, purchase_quantity = None,
     recipe = [\<lparr>supplyId = ''flour'', quantity = 1\<rparr>],
     yield_amount = Some 1, yield_unit = Some ''g''\<rparr>"

definition diamond :: supplies_by_id where
  "diamond = [pizza, dough, crust, flour]"

definition diamond_rank :: "string \<Rightarrow> nat" where
  "diamond_rank k = (if k = ''pizza'' then 2 else if k = ''dough'' \<or> k = ''crust'' then 1 else 0)"

text \<open>
  A tab with three orders of 30, 20 and 10, the newest first, and the request that closes
  it in cash with a discount.
\<close>

definition tab_order :: "string \<Rightarrow> rat \<Rightarrow> nat \<Rightarrow> string option \<Rightarrow> order_row" where
  "tab_order i t c acc = \<lparr>order_id = i, customer_name = ''Ana'', order_total = t,
     order_status = ''delivered'', payment_method = ''cuenta_abierta'',
     mercado_pago_account_id = None, cash_register_id = None, open_account_id = acc,
     closed_open_account_id = None, closed_open_account_name = None,
     order_discount = None, discount_reason = None, order_notes = None, created_at = c\<rparr>"

definition tab_store :: store where
  "tab_store = \<lparr>orders = [tab_order ''#3'' 30 3 (Some ''t1''), tab_order ''#2'' 20 2 (Some ''t1''),
                           tab_order ''#1'' 10 1 (Some ''t1'')],
     order_items = [],
     open_accounts = [\<lparr>account_id = ''t1'', account_name = ''Mesa 1'', account_status = ''open'',
        payment_method_used = None, account_mercado_pago_account_id = None,
        closed_discount = None, closed_discount_reason = None\<rparr>],
     settings = Map.empty\<rparr>"

definition close_with :: "rat \<Rightarrow> close_body" where
  "close_with d = \<lparr>paymentMethod = Some ''efectivo'', mercadoPagoAccountId = None,
     discount = Some d, discountReason = Some ''promo''\<rparr>"

definition totals_after :: "close_error + store \<Rightarrow> close_error + rat list" where
  "totals_after r = map_sum id (\<lambda>st. map order_total (orders st)) r"

definition discounts_after :: "close_error + store \<Rightarrow> close_error + rat option list" where
  "discounts_after r = map_sum id (\<lambda>st. map order_discount (orders st)) r"

text \<open>
  Salsa is stored with a recipe that names masa; the request \<open>masa_body\<close> then makes masa a
  composed supply whose recipe names a missing supply first and salsa second. The request
  \<open>mix_body\<close> has a negative and a zero quantity, a \<open>null\<close> element and a line without
  quantity.
\<close>

definition salsa :: supply_obj where
  "salsa = \<lparr>supply_id = ''salsa'', supply_name = ''Salsa'', supply_type = ''composed'',
     supply_unit = None, purchase_price = None, purchase_quantity = None,
     recipe = [\<lparr>supplyId = ''masa'', quantity = 1\<rparr>],
     yield_amount = Some 1, yield_unit = Some ''ml''\<rparr>"

definition masa_body :: supply_body where
  "masa_body = \<lparr>body_name = Some ''Masa'', body_type = Some ''composed'', body_unit = None,
     body_purchasePrice = None, body_purchaseQuantity = None,
     body_recipe = Some [Some \<lparr>raw_supplyId = Some ''ghost'', raw_supply_id = None, raw_quantity = Some 1\<rparr>,
                         Some \<lparr>raw_supplyId = Some ''salsa'', raw_supply_id = None, raw_quantity = Some 1\<rparr>],
     body_yieldAmount = Some 1, body_yieldUnit = Some ''g''\<rparr>"

definition masa :: supply_obj where
  "masa = \<lparr>supply_id = ''masa'', supply_name = ''Masa'', supply_type = ''composed'',
     supply_unit = None, purchase_price = None, purchase_quantity = None,
     recipe = [\<lparr>supplyId = ''ghost'', quantity = 1\<rparr>, \<lparr>supplyId = ''salsa'', quantity = 1\<rparr>],
     yield_amount = Some 1, yield_unit = Some ''g''\<rparr>"






section \<open>Verification\<close>

subsection \<open>The recipe loop and the cost function\<close>

lemma recipe_loop_known:
  assumes "\<forall>l \<in> set ls. \<exists>sub. lookup_supply g (supplyId l) = Some sub \<and> f sub = Inr (Some (c l))"
  shows "recipe_loop f g ls t = Inr (Some (t + (\<Sum>l\<leftarrow>ls. c l * quantity l)))"
  using assms
proof (induction ls arbitrary: t)
  case Nil
  show ?case by simp
next
  case (Cons l ls)
  from Cons.prems obtain sub where sub: "lookup_supply g (supplyId l) = Some sub" "f sub = Inr (Some (c l))"
    by auto
  have "recipe_loop f g ls t' = Inr (Some (t' + (\<Sum>l\<leftarrow>ls. c l * quantity l)))" for t'
    using Cons.IH Cons.prems by simp
  then show ?case using sub by (simp add: add.assoc)
qed

lemma recipe_loop_unknown:
  assumes "ls = before @ line # after"
    and "\<forall>l \<in> set before. \<forall>sub. lookup_supply g (supplyId l) = Some sub \<longrightarrow> f sub \<noteq> Inl CircularReference"
    and "lookup_supply g (supplyId line) = None \<or>
         (\<exists>sub. lookup_supply g (supplyId line) = Some sub \<and> f sub = Inr None)"
  shows "recipe_loop f g ls t = Inr None"
  using assms(2) unfolding assms(1)
proof (induction before arbitrary: t)
  case Nil
  show ?case using assms(3) by auto
next
  case (Cons l ls)
  show ?case
  proof (cases "lookup_supply g (supplyId l)")
    case None
    then show ?thesis by simp
  next
    case (Some sub)
    then have ne: "f sub \<noteq> Inl CircularReference" using Cons.prems by simp
    have ih: "recipe_loop f g (ls @ line # after) t' = Inr None" for t'
      using Cons.IH Cons.prems by simp
    show ?thesis
    proof (cases "f sub")
      case (Inl e)
      then show ?thesis using ne by (cases e) simp
    next
      case (Inr r)
      then show ?thesis using Some ih by (cases r) simp_all
    qed
  qed
qed

lemma cost_entry_check:
  "supply_id s \<in> V \<Longrightarrow> getSupplyCostPerUnit s g V = Inl CircularReference"
  by (simp add: getSupplyCostPerUnit.simps)

lemma cost_composed_unfold:
  assumes "supply_id s \<notin> V" and "supply_type s \<noteq> ''purchased''" and "recipe s \<noteq> []"
    and "yield_amount s = Some y" and "\<not> y \<le> 0"
  shows "getSupplyCostPerUnit s g V =
     (case recipe_loop (\<lambda>sub. getSupplyCostPerUnit sub g (insert (supply_id s) V)) g (recipe s) 0 of
        Inl e \<Rightarrow> Inl e
      | Inr None \<Rightarrow> Inr None
      | Inr (Some tot) \<Rightarrow> Inr (Some (tot / y)))"
  by (subst getSupplyCostPerUnit.simps) (simp add: assms)

lemma cost_no_walk:
  assumes "supply_id s \<notin> V"
    and "supply_type s = ''purchased'' \<or> recipe s = [] \<or> yield_amount s = None
         \<or> (\<exists>y. yield_amount s = Some y \<and> y \<le> 0)"
  shows "getSupplyCostPerUnit s g V =
     (if supply_type s = ''purchased'' then
        (case purchase_price s of
           None \<Rightarrow> Inr None
         | Some price \<Rightarrow>
             (case purchase_quantity s of
                None \<Rightarrow> Inr None
              | Some qty \<Rightarrow> if qty \<le> 0 then Inr None else Inr (Some (price / qty))))
      else Inr None)"
  using assms by (subst getSupplyCostPerUnit.simps) auto

lemma lookup_supply_self:
  "lookup_supply g k = Some s \<Longrightarrow> lookup_supply g (supply_id s) = Some s"
  using lookup_supply_Some[of g k s] by simp

lemma recipe_loop_no_throw:
  assumes "\<forall>l \<in> set ls. \<forall>sub. lookup_supply g (supplyId l) = Some sub \<longrightarrow> f sub \<noteq> Inl CircularReference"
  shows "recipe_loop f g ls t \<noteq> Inl CircularReference"
  using assms
proof (induction ls arbitrary: t)
  case Nil
  show ?case by simp
next
  case (Cons l ls)
  have ih: "recipe_loop f g ls t' \<noteq> Inl CircularReference" for t'
    using Cons.IH Cons.prems by simp
  show ?case
  proof (cases "lookup_supply g (supplyId l)")
    case None
    then show ?thesis by simp
  next
    case (Some sub)
    then have ne: "f sub \<noteq> Inl CircularReference" using Cons.prems by simp
    show ?thesis
    proof (cases "f sub")
      case (Inl e)
      then show ?thesis using ne by (cases e) simp
    next
      case (Inr r)
      then show ?thesis using Some ih by (cases r) simp_all
    qed
  qed
qed

lemma recipe_edge_of_line:
  assumes "lookup_supply g (supply_id s) = Some s" and "line \<in> set (recipe s)"
  shows "(supply_id s, supplyId line) \<in> recipe_edges g"
  using assms by (simp add: recipe_edges_def recipe_refs_def)

lemma acyclic_no_throw:
  assumes "acyclic (recipe_edges g)"
    and "lookup_supply g (supply_id s) = Some s"
    and "\<forall>v \<in> V. (v, supply_id s) \<in> (recipe_edges g)\<^sup>+"
  shows "getSupplyCostPerUnit s g V \<noteq> Inl CircularReference"
  using assms
proof (induction s g V rule: getSupplyCostPerUnit.induct)
  case (1 s g visited)
  have nin: "supply_id s \<notin> visited"
  proof
    assume "supply_id s \<in> visited"
    then have "(supply_id s, supply_id s) \<in> (recipe_edges g)\<^sup>+" using "1.prems"(3) by simp
    then show False using "1.prems"(1) by (simp add: acyclic_def)
  qed
  show ?case
  proof (cases "supply_type s = ''purchased'' \<or> recipe s = [] \<or> yield_amount s = None
                \<or> (\<exists>y. yield_amount s = Some y \<and> y \<le> 0)")
    case True
    show ?thesis unfolding cost_no_walk[OF nin True]
      by (simp split: option.splits)
  next
    case False
    then obtain y where y: "yield_amount s = Some y" "\<not> y \<le> 0"
      and np: "supply_type s \<noteq> ''purchased''" and ne: "recipe s \<noteq> []"
      by auto
    have sub_ok: "getSupplyCostPerUnit sub g (insert (supply_id s) visited) \<noteq> Inl CircularReference"
      if l: "line \<in> set (recipe s)" and lk: "lookup_supply g (supplyId line) = Some sub" for line sub
    proof (rule "1.IH"[OF nin np ne y l lk "1.prems"(1)])
      show "lookup_supply g (supply_id sub) = Some sub" using lk by (rule lookup_supply_self)
      have e: "(supply_id s, supply_id sub) \<in> recipe_edges g"
        using recipe_edge_of_line[OF "1.prems"(2) l] lookup_supply_Some[OF lk] by simp
      show "\<forall>v \<in> insert (supply_id s) visited. (v, supply_id sub) \<in> (recipe_edges g)\<^sup>+"
      proof
        fix v assume "v \<in> insert (supply_id s) visited"
        then consider "v = supply_id s" | "v \<in> visited" by auto
        then show "(v, supply_id sub) \<in> (recipe_edges g)\<^sup>+"
        proof cases
          case 1
          then show ?thesis using e by auto
        next
          case 2
          then have "(v, supply_id s) \<in> (recipe_edges g)\<^sup>+" using "1.prems"(3) by simp
          then show ?thesis using e by (rule trancl_into_trancl)
        qed
      qed
    qed
    have "recipe_loop (\<lambda>sub. getSupplyCostPerUnit sub g (insert (supply_id s) visited)) g (recipe s) 0
            \<noteq> Inl CircularReference"
      by (rule recipe_loop_no_throw) (use sub_ok in blast)
    then have "recipe_loop (\<lambda>sub. getSupplyCostPerUnit sub g (insert (supply_id s) visited)) g (recipe s) 0
            \<noteq> Inl e" for e
      by (cases e) simp
    then show ?thesis unfolding cost_composed_unfold[OF nin np ne y]
      by (simp split: sum.splits option.splits)
  qed
qed

lemma recipe_loop_indep:
  assumes "recipe_loop f1 g ls t = Inr r"
    and "\<And>l sub r'. l \<in> set ls \<Longrightarrow> lookup_supply g (supplyId l) = Some sub \<Longrightarrow> f1 sub = Inr r'
           \<Longrightarrow> f2 sub = Inr r' \<or> f2 sub = Inl CircularReference"
  shows "recipe_loop f2 g ls t = Inr r \<or> recipe_loop f2 g ls t = Inl CircularReference"
  using assms
proof (induction ls arbitrary: t)
  case Nil
  then show ?case by simp
next
  case (Cons l ls)
  show ?case
  proof (cases "lookup_supply g (supplyId l)")
    case None
    then show ?thesis using Cons.prems(1) by simp
  next
    case (Some sub)
    show ?thesis
    proof (cases "f1 sub")
      case (Inl e)
      then show ?thesis using Cons.prems(1) Some by simp
    next
      case (Inr r')
      have f2: "f2 sub = Inr r' \<or> f2 sub = Inl CircularReference"
        by (rule Cons.prems(2)[of l sub r']) (simp_all add: Some Inr)
      show ?thesis
      proof (cases r')
        case None
        then show ?thesis using Cons.prems(1) Some Inr f2 by auto
      next
        case (Some c)
        have run1: "recipe_loop f1 g ls (t + c * quantity l) = Inr r"
          using Cons.prems(1) \<open>lookup_supply g (supplyId l) = Some sub\<close> Inr Some by simp
        have "recipe_loop f2 g ls (t + c * quantity l) = Inr r
              \<or> recipe_loop f2 g ls (t + c * quantity l) = Inl CircularReference"
          by (rule Cons.IH[OF run1]) (rule Cons.prems(2), simp_all)
        then show ?thesis using f2 \<open>lookup_supply g (supplyId l) = Some sub\<close> Some by auto
      qed
    qed
  qed
qed

lemma cost_indep:
  "getSupplyCostPerUnit s g V1 = Inr r \<Longrightarrow>
   getSupplyCostPerUnit s g V2 = Inr r \<or> getSupplyCostPerUnit s g V2 = Inl CircularReference"
proof (induction s g V1 arbitrary: V2 r rule: getSupplyCostPerUnit.induct)
  case (1 s g visited)
  have nin: "supply_id s \<notin> visited"
    using "1.prems" cost_entry_check[of s visited g] by auto
  show ?case
  proof (cases "supply_id s \<in> V2")
    case True
    then show ?thesis by (simp add: cost_entry_check)
  next
    case nin2: False
    show ?thesis
    proof (cases "supply_type s = ''purchased'' \<or> recipe s = [] \<or> yield_amount s = None
                \<or> (\<exists>y. yield_amount s = Some y \<and> y \<le> 0)")
      case True
      then have "getSupplyCostPerUnit s g V2 = getSupplyCostPerUnit s g visited"
        using cost_no_walk[OF nin, of g] cost_no_walk[OF nin2, of g] by simp
      then show ?thesis using "1.prems" by simp
    next
      case False
      then obtain y where y: "yield_amount s = Some y" "\<not> y \<le> 0"
        and np: "supply_type s \<noteq> ''purchased''" and ne: "recipe s \<noteq> []"
        by auto
      let ?f1 = "\<lambda>sub. getSupplyCostPerUnit sub g (insert (supply_id s) visited)"
      let ?f2 = "\<lambda>sub. getSupplyCostPerUnit sub g (insert (supply_id s) V2)"
      have unf1: "getSupplyCostPerUnit s g visited =
          (case recipe_loop ?f1 g (recipe s) 0 of Inl e \<Rightarrow> Inl e | Inr None \<Rightarrow> Inr None
           | Inr (Some tot) \<Rightarrow> Inr (Some (tot / y)))"
        using nin np ne y by (rule cost_composed_unfold)
      have unf2: "getSupplyCostPerUnit s g V2 =
          (case recipe_loop ?f2 g (recipe s) 0 of Inl e \<Rightarrow> Inl e | Inr None \<Rightarrow> Inr None
           | Inr (Some tot) \<Rightarrow> Inr (Some (tot / y)))"
        using nin2 np ne y by (rule cost_composed_unfold)
      obtain r1 where r1: "recipe_loop ?f1 g (recipe s) 0 = Inr r1"
        using "1.prems" unf1 by (cases "recipe_loop ?f1 g (recipe s) 0") auto
      have "recipe_loop ?f2 g (recipe s) 0 = Inr r1 \<or> recipe_loop ?f2 g (recipe s) 0 = Inl CircularReference"
      proof (rule recipe_loop_indep[OF r1])
        fix l sub r'
        assume "l \<in> set (recipe s)" "lookup_supply g (supplyId l) = Some sub" "?f1 sub = Inr r'"
        then show "?f2 sub = Inr r' \<or> ?f2 sub = Inl CircularReference"
          using "1.IH"[OF nin np ne y] by blast
      qed
      then show ?thesis using unf1 unf2 r1 "1.prems" by (auto split: option.splits)
    qed
  qed
qed

lemma recipe_loop_throws:
  assumes "ls = before @ line # after"
    and "\<forall>l \<in> set before. \<exists>sub c. lookup_supply g (supplyId l) = Some sub \<and>
           (f sub = Inr (Some c) \<or> f sub = Inl CircularReference)"
    and "lookup_supply g (supplyId line) = Some sub" and "f sub = Inl CircularReference"
  shows "recipe_loop f g ls t = Inl CircularReference"
  using assms(2) unfolding assms(1)
proof (induction before arbitrary: t)
  case Nil
  show ?case using assms(3,4) by simp
next
  case (Cons l ls)
  from Cons.prems obtain sub' c where s': "lookup_supply g (supplyId l) = Some sub'"
    "f sub' = Inr (Some c) \<or> f sub' = Inl CircularReference"
    by auto
  have "recipe_loop f g (ls @ line # after) t' = Inl CircularReference" for t'
    using Cons.IH Cons.prems by simp
  then show ?case using s' by auto
qed

lemma step_throw:
  assumes "resolution_step g (s, V) (sub, V')"
    and "getSupplyCostPerUnit sub g (insert (supply_id s) W) = Inl CircularReference"
  shows "getSupplyCostPerUnit s g W = Inl CircularReference"
  using assms(1)
proof (cases rule: resolution_step.cases)
  case (call y before line after)
  show ?thesis
  proof (cases "supply_id s \<in> W")
    case True
    then show ?thesis by (rule cost_entry_check)
  next
    case False
    let ?f = "\<lambda>sub. getSupplyCostPerUnit sub g (insert (supply_id s) W)"
    have "recipe_loop ?f g (recipe s) 0 = Inl CircularReference"
    proof (rule recipe_loop_throws[where f = ?f and before = before, OF call(6) _ call(8) assms(2)])
      show "\<forall>l\<in>set before. \<exists>sub c. lookup_supply g (supplyId l) = Some sub \<and>
          (?f sub = Inr (Some c) \<or> ?f sub = Inl CircularReference)"
      proof
        fix l assume "l \<in> set before"
        then obtain sub' c where a: "lookup_supply g (supplyId l) = Some sub'"
          and b: "getSupplyCostPerUnit sub' g (insert (supply_id s) V) = Inr (Some c)"
          using call(7) by blast
        from cost_indep[OF b, of "insert (supply_id s) W"] a
        show "\<exists>sub c. lookup_supply g (supplyId l) = Some sub \<and>
          (?f sub = Inr (Some c) \<or> ?f sub = Inl CircularReference)" by blast
      qed
    qed
    moreover have "recipe s \<noteq> []" using call(6) by simp
    moreover have "\<not> y \<le> 0" using call(5) by simp
    ultimately show ?thesis using cost_composed_unfold[OF False call(3) _ call(4), of g]
      by simp
  qed
qed

lemma step_visited:
  "resolution_step g (s, V) (sub, V') \<Longrightarrow> V' = insert (supply_id s) V \<and> supply_id s \<notin> V
     \<and> lookup_supply g (supply_id sub) = Some sub"
  by (auto elim!: resolution_step.cases dest: lookup_supply_self)

lemma path_visited_mono:
  "(resolution_step g)\<^sup>*\<^sup>* (s, V) (n, V') \<Longrightarrow> V \<subseteq> V'"
  by (induction rule: rtranclp_induct2) (auto dest: step_visited)

lemma path_throw:
  assumes "(resolution_step g)\<^sup>*\<^sup>* (s, V) (n, V')"
  shows "getSupplyCostPerUnit n g (W \<union> (V' - V)) = Inl CircularReference
         \<Longrightarrow> getSupplyCostPerUnit s g W = Inl CircularReference"
  using assms
proof (induction arbitrary: W rule: converse_rtranclp_induct2)
  case refl
  then show ?case by simp
next
  case (step s V s1 V1)
  have v1: "V1 = insert (supply_id s) V" "supply_id s \<notin> V"
    using step_visited[OF step.hyps(1)] by simp_all
  have "V1 \<subseteq> V'" using step.hyps(2) by (rule path_visited_mono)
  then have "insert (supply_id s) W \<union> (V' - V1) = W \<union> (V' - V)"
    using v1 by auto
  then have "getSupplyCostPerUnit s1 g (insert (supply_id s) W) = Inl CircularReference"
    using step.IH[of "insert (supply_id s) W"] step.prems by simp
  then show ?case using step.hyps(1) by (rule step_throw[rotated])
qed

lemma path_origin:
  assumes "(resolution_step g)\<^sup>*\<^sup>* (s0, {}) (m, Vm)" and "x \<in> Vm"
  shows "\<exists>a Va. (resolution_step g)\<^sup>*\<^sup>* (s0, {}) (a, Va) \<and>
           (resolution_step g)\<^sup>+\<^sup>+ (a, Va) (m, Vm) \<and> supply_id a = x \<and> x \<notin> Va"
  using assms
proof (induction arbitrary: rule: rtranclp_induct2)
  case refl
  then show ?case by simp
next
  case (step m1 V1 m Vm)
  have v: "Vm = insert (supply_id m1) V1" "supply_id m1 \<notin> V1"
    using step_visited[OF step.hyps(2)] by simp_all
  show ?case
  proof (cases "x \<in> V1")
    case True
    then obtain a Va where a: "(resolution_step g)\<^sup>*\<^sup>* (s0, {}) (a, Va)"
      "(resolution_step g)\<^sup>+\<^sup>+ (a, Va) (m1, V1)" "supply_id a = x" "x \<notin> Va"
      using step.IH by blast
    have "(resolution_step g)\<^sup>+\<^sup>+ (a, Va) (m, Vm)"
      using a(2) step.hyps(2) by (rule tranclp.trancl_into_trancl)
    then show ?thesis using a(1,3,4) by blast
  next
    case False
    then have "x = supply_id m1" using step.prems v by simp
    then show ?thesis using step.hyps(1,2) v(2) by blast
  qed
qed

lemma path_entry:
  assumes "(resolution_step g)\<^sup>*\<^sup>* (s0, {}) (a, Va)"
    and "lookup_supply g (supply_id s0) = Some s0"
  shows "lookup_supply g (supply_id a) = Some a"
  using assms
  by (induction rule: rtranclp_induct2) (auto dest: step_visited)

lemma repeated_id_throws:
  assumes p1: "(resolution_step g)\<^sup>*\<^sup>* (s0, {}) (m, Vm)"
    and p2: "(resolution_step g)\<^sup>*\<^sup>* (m, Vm) (n, V)"
    and rep: "supply_id n \<in> V"
    and s0: "lookup_supply g (supply_id s0) = Some s0"
  shows "getSupplyCostPerUnit m g {} = Inl CircularReference"
proof (cases "supply_id n \<in> Vm")
  case False
  then have "getSupplyCostPerUnit n g ({} \<union> (V - Vm)) = Inl CircularReference"
    using rep by (intro cost_entry_check) simp
  then show ?thesis by (rule path_throw[OF p2])
next
  case True
  then obtain a Va where a1: "(resolution_step g)\<^sup>*\<^sup>* (s0, {}) (a, Va)"
    and a2: "(resolution_step g)\<^sup>+\<^sup>+ (a, Va) (m, Vm)" and ida: "supply_id a = supply_id n"
    and fresh: "supply_id n \<notin> Va"
    using path_origin[OF p1] by blast
  have "lookup_supply g (supply_id a) = Some a" using a1 s0 by (rule path_entry)
  then have la: "lookup_supply g (supply_id n) = Some a" by (simp only: ida)
  have ln: "lookup_supply g (supply_id n) = Some n"
    using rtranclp_trans[OF p1 p2] s0 by (rule path_entry)
  have "Some a = Some n" using la ln by (rule trans[OF sym])
  then have an: "a = n" by (simp only: option.inject)
  have a2': "(resolution_step g)\<^sup>*\<^sup>* (a, Va) (m, Vm)" using a2 by (rule tranclp_into_rtranclp)
  have sub: "Va \<subseteq> Vm" using a2' by (rule path_visited_mono)
  show ?thesis
  proof (cases "(m, Vm) = (n, V)")
    case True
    have "supply_id n \<in> {} \<union> (Vm - Va)" using \<open>supply_id n \<in> Vm\<close> fresh by simp
    then have "getSupplyCostPerUnit m g ({} \<union> (Vm - Va)) = Inl CircularReference"
      using True by (intro cost_entry_check) simp
    then have "getSupplyCostPerUnit a g {} = Inl CircularReference"
      by (rule path_throw[OF a2'])
    then show ?thesis using an True by simp
  next
    case False
    then have "(resolution_step g)\<^sup>+\<^sup>+ (m, Vm) (n, V)"
      using rtranclpD[OF p2] by blast
    then obtain c where c: "resolution_step g (m, Vm) c" "(resolution_step g)\<^sup>*\<^sup>* c (n, V)"
      by (meson tranclpD)
    obtain m1 V1 where c': "c = (m1, V1)" by (cases c)
    have v1: "V1 = insert (supply_id m) Vm" "supply_id m \<notin> Vm"
      using step_visited[OF c(1)[unfolded c']] by simp_all
    have "V1 \<subseteq> V" using c(2)[unfolded c'] by (rule path_visited_mono)
    then have idm: "supply_id m \<in> V - Vm" using v1 by auto
    have "getSupplyCostPerUnit m g ((V - Vm) \<union> (Vm - Va)) = Inl CircularReference"
      using idm by (intro cost_entry_check) simp
    then have "getSupplyCostPerUnit a g (V - Vm) = Inl CircularReference"
      by (rule path_throw[OF a2'])
    then have "getSupplyCostPerUnit n g ({} \<union> (V - Vm)) = Inl CircularReference"
      using an by simp
    then show ?thesis by (rule path_throw[OF p2])
  qed
qed

lemma recipe_loop_Inl_split:
  assumes "recipe_loop f g ls t = Inl e"
  shows "\<exists>before line after sub. ls = before @ line # after \<and>
           (\<forall>l \<in> set before. \<exists>sub' c. lookup_supply g (supplyId l) = Some sub' \<and> f sub' = Inr (Some c)) \<and>
           lookup_supply g (supplyId line) = Some sub \<and> f sub = Inl e"
  using assms
proof (induction ls arbitrary: t)
  case Nil
  then show ?case by simp
next
  case (Cons l ls)
  show ?case
  proof (cases "lookup_supply g (supplyId l)")
    case None
    then show ?thesis using Cons.prems by simp
  next
    case (Some sub)
    show ?thesis
    proof (cases "f sub")
      case (Inl e')
      then have "e' = e" using Cons.prems Some by simp
      then have "l # ls = [] @ l # ls \<and>
           (\<forall>l \<in> set []. \<exists>sub' c. lookup_supply g (supplyId l) = Some sub' \<and> f sub' = Inr (Some c)) \<and>
           lookup_supply g (supplyId l) = Some sub \<and> f sub = Inl e"
        using Some Inl by simp
      then show ?thesis by blast
    next
      case (Inr r)
      show ?thesis
      proof (cases r)
        case None
        then show ?thesis using Cons.prems Some Inr by simp
      next
        case (Some c)
        then have "recipe_loop f g ls (t + c * quantity l) = Inl e"
          using Cons.prems \<open>lookup_supply g (supplyId l) = Some sub\<close> Inr by simp
        from Cons.IH[OF this] obtain before line after sub2 where
          sp: "ls = before @ line # after"
            "\<forall>l \<in> set before. \<exists>sub' c. lookup_supply g (supplyId l) = Some sub' \<and> f sub' = Inr (Some c)"
            "lookup_supply g (supplyId line) = Some sub2" "f sub2 = Inl e"
          by blast
        have "l # ls = (l # before) @ line # after" using sp(1) by simp
        moreover have "\<forall>l' \<in> set (l # before). \<exists>sub' c. lookup_supply g (supplyId l') = Some sub' \<and> f sub' = Inr (Some c)"
          using sp(2) \<open>lookup_supply g (supplyId l) = Some sub\<close> Inr Some by auto
        ultimately show ?thesis using sp(3,4) by blast
      qed
    qed
  qed
qed

lemma throw_has_path:
  assumes "getSupplyCostPerUnit s g V = Inl CircularReference"
  shows "\<exists>n V'. (resolution_step g)\<^sup>*\<^sup>* (s, V) (n, V') \<and> supply_id n \<in> V'"
  using assms
proof (induction s g V rule: getSupplyCostPerUnit.induct)
  case (1 s g visited)
  show ?case
  proof (cases "supply_id s \<in> visited")
    case True
    then show ?thesis by blast
  next
    case nin: False
    have walk: "\<not> (supply_type s = ''purchased'' \<or> recipe s = [] \<or> yield_amount s = None
                \<or> (\<exists>y. yield_amount s = Some y \<and> y \<le> 0))"
    proof
      assume a: "supply_type s = ''purchased'' \<or> recipe s = [] \<or> yield_amount s = None
                \<or> (\<exists>y. yield_amount s = Some y \<and> y \<le> 0)"
      show False using "1.prems" unfolding cost_no_walk[OF nin a]
        by (simp split: if_splits option.splits)
    qed
    then obtain y where y: "yield_amount s = Some y" "\<not> y \<le> 0"
      and np: "supply_type s \<noteq> ''purchased''" and ne: "recipe s \<noteq> []"
      by auto
    let ?f = "\<lambda>sub. getSupplyCostPerUnit sub g (insert (supply_id s) visited)"
    have "recipe_loop ?f g (recipe s) 0 = Inl CircularReference"
      using "1.prems" unfolding cost_composed_unfold[OF nin np ne y]
      by (simp split: sum.splits option.splits)
    from recipe_loop_Inl_split[OF this] obtain before line after sub where
      sp: "recipe s = before @ line # after"
        "\<forall>l \<in> set before. \<exists>sub' c. lookup_supply g (supplyId l) = Some sub' \<and> ?f sub' = Inr (Some c)"
        "lookup_supply g (supplyId line) = Some sub" "?f sub = Inl CircularReference"
      by blast
    have pos: "0 < y" using y(2) by simp
    have st: "resolution_step g (s, visited) (sub, insert (supply_id s) visited)"
      using nin np y(1) pos sp(1,2,3) by (rule resolution_step.call)
    have mem: "line \<in> set (recipe s)" using sp(1) by simp
    from "1.IH"[OF nin np ne y mem sp(3) sp(4)] obtain n V' where
      "(resolution_step g)\<^sup>*\<^sup>* (sub, insert (supply_id s) visited) (n, V')" "supply_id n \<in> V'"
      by blast
    then show ?thesis using st by (meson converse_rtranclp_into_rtranclp)
  qed
qed

lemma recipe_loop_same:
  assumes "recipe_loop f1 g ls t = Inr r"
    and "\<And>l sub r'. l \<in> set ls \<Longrightarrow> lookup_supply g (supplyId l) = Some sub \<Longrightarrow> f1 sub = Inr r'
           \<Longrightarrow> f2 sub = Inr r'"
  shows "recipe_loop f2 g ls t = Inr r"
  using assms
proof (induction ls arbitrary: t)
  case Nil
  then show ?case by simp
next
  case (Cons l ls)
  show ?case
  proof (cases "lookup_supply g (supplyId l)")
    case None
    then show ?thesis using Cons.prems(1) by simp
  next
    case (Some sub)
    show ?thesis
    proof (cases "f1 sub")
      case (Inl e)
      then show ?thesis using Cons.prems(1) Some by simp
    next
      case (Inr r')
      have f2: "f2 sub = Inr r'"
        by (rule Cons.prems(2)[of l sub r']) (simp_all add: Some Inr)
      show ?thesis
      proof (cases r')
        case None
        then show ?thesis using Cons.prems(1) Some Inr f2 by auto
      next
        case (Some c)
        have run1: "recipe_loop f1 g ls (t + c * quantity l) = Inr r"
          using Cons.prems(1) \<open>lookup_supply g (supplyId l) = Some sub\<close> Inr Some by simp
        have "recipe_loop f2 g ls (t + c * quantity l) = Inr r"
          by (rule Cons.IH[OF run1]) (rule Cons.prems(2), simp_all)
        then show ?thesis using f2 \<open>lookup_supply g (supplyId l) = Some sub\<close> Some by auto
      qed
    qed
  qed
qed

lemma cost_mono:
  "getSupplyCostPerUnit s g V2 = Inr r \<Longrightarrow> V1 \<subseteq> V2 \<Longrightarrow> getSupplyCostPerUnit s g V1 = Inr r"
proof (induction s g V2 arbitrary: V1 r rule: getSupplyCostPerUnit.induct)
  case (1 s g visited)
  have nin: "supply_id s \<notin> visited"
    using "1.prems"(1) cost_entry_check[of s visited g] by auto
  then have nin1: "supply_id s \<notin> V1" using "1.prems"(2) by auto
  show ?case
  proof (cases "supply_type s = ''purchased'' \<or> recipe s = [] \<or> yield_amount s = None
                \<or> (\<exists>y. yield_amount s = Some y \<and> y \<le> 0)")
    case True
    then have "getSupplyCostPerUnit s g V1 = getSupplyCostPerUnit s g visited"
      using cost_no_walk[OF nin, of g] cost_no_walk[OF nin1, of g] by simp
    then show ?thesis using "1.prems" by simp
  next
    case False
    then obtain y where y: "yield_amount s = Some y" "\<not> y \<le> 0"
      and np: "supply_type s \<noteq> ''purchased''" and ne: "recipe s \<noteq> []"
      by auto
    let ?f2 = "\<lambda>sub. getSupplyCostPerUnit sub g (insert (supply_id s) visited)"
    let ?f1 = "\<lambda>sub. getSupplyCostPerUnit sub g (insert (supply_id s) V1)"
    note unf2 = cost_composed_unfold[OF nin np ne y, of g]
    note unf1 = cost_composed_unfold[OF nin1 np ne y, of g]
    obtain r2 where r2: "recipe_loop ?f2 g (recipe s) 0 = Inr r2"
      using "1.prems"(1) unf2 by (cases "recipe_loop ?f2 g (recipe s) 0") auto
    have "recipe_loop ?f1 g (recipe s) 0 = Inr r2"
    proof (rule recipe_loop_same[OF r2])
      fix l sub r'
      assume a: "l \<in> set (recipe s)" "lookup_supply g (supplyId l) = Some sub" "?f2 sub = Inr r'"
      have "insert (supply_id s) V1 \<subseteq> insert (supply_id s) visited" using "1.prems"(2) by auto
      then show "?f1 sub = Inr r'"
        using "1.IH"[OF nin np ne y a(1,2) a(3)] by blast
    qed
    then show ?thesis using unf1 unf2 r2 "1.prems"(1) by simp
  qed
qed

lemma step_lift:
  assumes "resolution_step g (t, V2) (t1, V2')" and "V1 \<subseteq> V2"
  shows "resolution_step g (t, V1) (t1, insert (supply_id t) V1)"
  using assms(1)
proof (cases rule: resolution_step.cases)
  case (call y before line after)
  have nin: "supply_id t \<notin> V1" using call(2) assms(2) by auto
  have sub: "insert (supply_id t) V1 \<subseteq> insert (supply_id t) V2" using assms(2) by auto
  have "\<forall>l \<in> set before. \<exists>sub' c. lookup_supply g (supplyId l) = Some sub' \<and>
          getSupplyCostPerUnit sub' g (insert (supply_id t) V1) = Inr (Some c)"
    using call(7) cost_mono[OF _ sub] by blast
  then show ?thesis using nin call(3,4,5,6,8) by (intro resolution_step.call)
qed

lemma path_lift:
  assumes "(resolution_step g)\<^sup>*\<^sup>* (t, V2) (n, V2')"
  shows "V1 \<subseteq> V2 \<Longrightarrow> (resolution_step g)\<^sup>*\<^sup>* (t, V1) (n, V1 \<union> (V2' - V2))"
  using assms
proof (induction arbitrary: V1 rule: converse_rtranclp_induct2)
  case refl
  then show ?case by simp
next
  case (step t V2 t1 V21)
  have v: "V21 = insert (supply_id t) V2" "supply_id t \<notin> V2"
    using step_visited[OF step.hyps(1)] by simp_all
  have st: "resolution_step g (t, V1) (t1, insert (supply_id t) V1)"
    using step.hyps(1) step.prems by (rule step_lift)
  have "insert (supply_id t) V1 \<subseteq> V21" using step.prems v by auto
  from step.IH[OF this]
  have p: "(resolution_step g)\<^sup>*\<^sup>* (t1, insert (supply_id t) V1) (n, insert (supply_id t) V1 \<union> (V2' - V21))" .
  have "V21 \<subseteq> V2'" using step.hyps(2) by (rule path_visited_mono)
  then have "insert (supply_id t) V1 \<union> (V2' - V21) = V1 \<union> (V2' - V2)" using v by auto
  then show ?case using st p by (metis converse_rtranclp_into_rtranclp)
qed

lemma path_start_id:
  "(resolution_step g)\<^sup>*\<^sup>* (t, V) (n, V') \<Longrightarrow> (t, V) = (n, V') \<or> supply_id t \<in> V'"
proof (induction rule: converse_rtranclp_induct2)
  case refl
  show ?case by simp
next
  case (step t V t1 V1)
  have "supply_id t \<in> V1" using step_visited[OF step.hyps(1)] by simp
  moreover have "V1 \<subseteq> V'" using step.hyps(2) by (rule path_visited_mono)
  ultimately show ?case by auto
qed

lemma context_transfer:
  assumes entry: "lookup_supply g (supply_id s) = Some s"
    and np: "supply_type s \<noteq> ''purchased''"
    and y: "yield_amount s = Some y" "0 < y"
    and split: "recipe s = before @ line # after"
    and known: "\<forall>l \<in> set before. \<exists>sub' c. lookup_supply g (supplyId l) = Some sub' \<and>
                  getSupplyCostPerUnit sub' g {} = Inr (Some c)"
    and lk: "lookup_supply g (supplyId line) = Some sub"
    and top: "getSupplyCostPerUnit sub g {} = Inr r"
  shows "getSupplyCostPerUnit sub g {supply_id s} = Inr r"
proof (rule ccontr)
  let ?x = "supply_id s"
  assume "getSupplyCostPerUnit sub g {?x} \<noteq> Inr r"
  then have thr: "getSupplyCostPerUnit sub g {?x} = Inl CircularReference"
    using cost_indep[OF top, of "{?x}"] by simp
  from throw_has_path[OF thr] obtain n V' where
    p: "(resolution_step g)\<^sup>*\<^sup>* (sub, {?x}) (n, V')" and rep: "supply_id n \<in> V'"
    by blast
  let ?W = "V' - {?x}"
  have p0: "(resolution_step g)\<^sup>*\<^sup>* (sub, {}) (n, ?W)"
    using path_lift[OF p, of "{}"] by simp
  have no_throw: "getSupplyCostPerUnit n g ?W \<noteq> Inl CircularReference"
  proof
    assume "getSupplyCostPerUnit n g ?W = Inl CircularReference"
    then have "getSupplyCostPerUnit n g ({} \<union> (?W - {})) = Inl CircularReference" by simp
    then have "getSupplyCostPerUnit sub g {} = Inl CircularReference"
      by (rule path_throw[OF p0])
    then show False using top by simp
  qed
  then have nW: "supply_id n \<notin> ?W" using cost_entry_check[of n ?W g] by blast
  then have idn: "supply_id n = ?x" using rep by simp
  have "lookup_supply g (supply_id n) = Some n"
    using p0 lookup_supply_self[OF lk] by (rule path_entry)
  then have "lookup_supply g (supply_id s) = Some n" by (simp only: idn)
  then have "Some n = Some s" using entry by (rule trans[OF sym])
  then have ns: "n = s" by (simp only: option.inject)
  have ps: "(resolution_step g)\<^sup>*\<^sup>* (sub, {}) (s, ?W)" using p0 ns by simp
  have idsub: "supply_id sub \<in> insert ?x ?W"
    using path_start_id[OF ps] by auto
  have sW: "?x \<notin> ?W" by simp
  let ?f = "\<lambda>u. getSupplyCostPerUnit u g (insert ?x ?W)"
  have "recipe_loop ?f g (recipe s) 0 = Inl CircularReference"
  proof (rule recipe_loop_throws[where f = ?f and before = before, OF split _ lk])
    show "?f sub = Inl CircularReference" using idsub by (rule cost_entry_check)
    show "\<forall>l\<in>set before. \<exists>sub c. lookup_supply g (supplyId l) = Some sub \<and>
          (?f sub = Inr (Some c) \<or> ?f sub = Inl CircularReference)"
    proof
      fix l assume "l \<in> set before"
      then obtain sub' c where a: "lookup_supply g (supplyId l) = Some sub'"
        and b: "getSupplyCostPerUnit sub' g {} = Inr (Some c)"
        using known by blast
      from cost_indep[OF b, of "insert ?x ?W"] a
      show "\<exists>sub c. lookup_supply g (supplyId l) = Some sub \<and>
          (?f sub = Inr (Some c) \<or> ?f sub = Inl CircularReference)" by blast
    qed
  qed
  moreover have "recipe s \<noteq> []" using split by simp
  moreover have "\<not> y \<le> 0" using y(2) by simp
  ultimately have "getSupplyCostPerUnit s g ?W = Inl CircularReference"
    using cost_composed_unfold[OF sW np _ y(1), of g] by simp
  then show False using no_throw ns by simp
qed

lemma composed_known_top:
  assumes np: "supply_type s \<noteq> ''purchased''" and entry: "lookup_supply g (supply_id s) = Some s"
    and ne: "recipe s \<noteq> []" and y: "yield_amount s = Some y" "0 < y"
    and known: "\<forall>l \<in> set (recipe s). \<exists>sub. lookup_supply g (supplyId l) = Some sub \<and>
                  getSupplyCostPerUnit sub g {} = Inr (Some (c l))"
  shows "getSupplyCostPerUnit s g {} = Inr (Some ((\<Sum>l\<leftarrow>recipe s. c l * quantity l) / y))"
proof -
  let ?f = "\<lambda>sub. getSupplyCostPerUnit sub g (insert (supply_id s) {})"
  have "\<exists>sub. lookup_supply g (supplyId l) = Some sub \<and> ?f sub = Inr (Some (c l))"
    if l: "l \<in> set (recipe s)" for l
  proof -
    from l obtain pre post where sp: "recipe s = pre @ l # post" by (meson split_list)
    from known l obtain sub where sub: "lookup_supply g (supplyId l) = Some sub"
      "getSupplyCostPerUnit sub g {} = Inr (Some (c l))" by blast
    have pre: "\<forall>l' \<in> set pre. \<exists>sub' c'. lookup_supply g (supplyId l') = Some sub' \<and>
                  getSupplyCostPerUnit sub' g {} = Inr (Some c')"
      using known sp by auto
    have "getSupplyCostPerUnit sub g {supply_id s} = Inr (Some (c l))"
      using entry np y sp pre sub by (rule context_transfer)
    then show ?thesis using sub(1) by simp
  qed
  then have "recipe_loop ?f g (recipe s) 0 = Inr (Some (0 + (\<Sum>l\<leftarrow>recipe s. c l * quantity l)))"
    by (intro recipe_loop_known) blast
  moreover have "\<not> y \<le> 0" using y(2) by simp
  ultimately show ?thesis
    using cost_composed_unfold[of s "{}" y g] np ne y(1) by simp
qed

lemma composed_unknown_top:
  assumes np: "supply_type s \<noteq> ''purchased''" and entry: "lookup_supply g (supply_id s) = Some s"
    and split: "recipe s = before @ line # after"
    and quiet: "\<forall>l \<in> set before. \<forall>sub. lookup_supply g (supplyId l) = Some sub \<longrightarrow>
                  getSupplyCostPerUnit sub g {} \<noteq> Inl CircularReference"
    and bad: "lookup_supply g (supplyId line) = None \<or>
              (\<exists>sub. lookup_supply g (supplyId line) = Some sub \<and> getSupplyCostPerUnit sub g {} = Inr None)"
  shows "getSupplyCostPerUnit s g {} = Inr None"
proof (cases "yield_amount s = None \<or> (\<exists>y. yield_amount s = Some y \<and> y \<le> 0)")
  case True
  then show ?thesis using cost_no_walk[of s "{}" g] np by auto
next
  case False
  then obtain y where y: "yield_amount s = Some y" "0 < y" by auto
  let ?known = "\<lambda>l. \<exists>sub c. lookup_supply g (supplyId l) = Some sub \<and>
                  getSupplyCostPerUnit sub g {} = Inr (Some c)"
  let ?bad = "\<lambda>l. lookup_supply g (supplyId l) = None \<or>
              (\<exists>sub. lookup_supply g (supplyId l) = Some sub \<and> getSupplyCostPerUnit sub g {} = Inr None)"
  have line_unknown: "\<not> ?known line" using bad by auto
  then have "\<exists>l \<in> set (before @ [line]). \<not> ?known l" by simp
  from split_list_first_prop[OF this] obtain pre l0 rest where
    sp: "before @ [line] = pre @ l0 # rest" and l0: "\<not> ?known l0" and pre: "\<forall>l \<in> set pre. ?known l"
    by blast
  have "l0 \<in> set (before @ [line])" using sp by simp
  then have "l0 \<in> set before \<or> l0 = line" by auto
  then have bad0: "?bad l0"
  proof
    assume b: "l0 \<in> set before"
    show ?thesis
    proof (cases "lookup_supply g (supplyId l0)")
      case None
      then show ?thesis by simp
    next
      case (Some sub)
      then have nt: "getSupplyCostPerUnit sub g {} \<noteq> Inl CircularReference" using quiet b by blast
      have "getSupplyCostPerUnit sub g {} = Inr None"
      proof (cases "getSupplyCostPerUnit sub g {}")
        case (Inl e)
        then show ?thesis using nt by (cases e) simp
      next
        case (Inr r)
        then show ?thesis using l0 Some by (cases r) auto
      qed
      then show ?thesis using Some by simp
    qed
  next
    assume "l0 = line"
    then show ?thesis using bad by simp
  qed
  have sp': "recipe s = pre @ l0 # (rest @ after)"
  proof -
    have "recipe s = (before @ [line]) @ after" using split by simp
    then show ?thesis unfolding sp by simp
  qed
  let ?f = "\<lambda>sub. getSupplyCostPerUnit sub g (insert (supply_id s) {})"
  have pre_ctx: "\<forall>l \<in> set pre. \<forall>sub. lookup_supply g (supplyId l) = Some sub \<longrightarrow> ?f sub \<noteq> Inl CircularReference"
  proof (intro ballI allI impI)
    fix l sub assume l: "l \<in> set pre" and lk: "lookup_supply g (supplyId l) = Some sub"
    from l obtain p1 p2 where ps: "pre = p1 @ l # p2" by (meson split_list)
    then have sp1: "recipe s = p1 @ l # (p2 @ l0 # (rest @ after))" using sp' by simp
    have k1: "\<forall>l' \<in> set p1. ?known l'" using pre ps by auto
    from pre l lk obtain c where "getSupplyCostPerUnit sub g {} = Inr (Some c)" by fastforce
    then have "getSupplyCostPerUnit sub g {supply_id s} = Inr (Some c)"
      using context_transfer[OF entry np y sp1 k1 lk] by blast
    then show "?f sub \<noteq> Inl CircularReference" by simp
  qed
  have bad_ctx: "lookup_supply g (supplyId l0) = None \<or>
         (\<exists>sub. lookup_supply g (supplyId l0) = Some sub \<and> ?f sub = Inr None)"
  proof (cases "lookup_supply g (supplyId l0)")
    case None
    then show ?thesis by simp
  next
    case (Some sub)
    then have "getSupplyCostPerUnit sub g {} = Inr None" using bad0 by simp
    then have "getSupplyCostPerUnit sub g {supply_id s} = Inr None"
      using context_transfer[OF entry np y sp' pre Some] by blast
    then show ?thesis using Some by simp
  qed
  have "recipe_loop ?f g (recipe s) 0 = Inr None"
    using sp' pre_ctx bad_ctx by (rule recipe_loop_unknown)
  moreover have "recipe s \<noteq> []" using split by simp
  moreover have "\<not> y \<le> 0" using y(2) by simp
  ultimately show ?thesis
    using cost_composed_unfold[of s "{}" y g] np y(1) by simp
qed

lemma diamond_acyclic: "acyclic (recipe_edges diamond)"
proof (rule acyclicI_order[where f = diamond_rank])
  fix a b assume "(a, b) \<in> recipe_edges diamond"
  then show "diamond_rank b < diamond_rank a"
    by (auto simp add: recipe_edges_def recipe_refs_def diamond_def lookup_supply_def
        pizza_def dough_def crust_def flour_def diamond_rank_def split: if_splits)
qed

lemma loop_steps:
  "resolution_step [loop_a, loop_b] (loop_a, {}) (loop_b, {''a''})"
  "resolution_step [loop_a, loop_b] (loop_b, {''a''}) (loop_a, {''a'', ''b''})"
proof -
  have "resolution_step [loop_a, loop_b] (loop_a, {}) (loop_b, insert (supply_id loop_a) {})"
    by (rule resolution_step.call[where y = 1 and before = "[]" and line = "\<lparr>supplyId = ''b'', quantity = 1\<rparr>"
          and after = "[\<lparr>supplyId = ''ghost'', quantity = 1\<rparr>]"])
       (simp_all add: loop_a_def loop_b_def lookup_supply_def)
  then show "resolution_step [loop_a, loop_b] (loop_a, {}) (loop_b, {''a''})"
    by (simp add: loop_a_def)
  have "resolution_step [loop_a, loop_b] (loop_b, {''a''}) (loop_a, insert (supply_id loop_b) {''a''})"
    by (rule resolution_step.call[where y = 1 and before = "[]" and line = "\<lparr>supplyId = ''a'', quantity = 1\<rparr>"
          and after = "[]"])
       (simp_all add: loop_a_def loop_b_def lookup_supply_def)
  then show "resolution_step [loop_a, loop_b] (loop_b, {''a''}) (loop_a, {''a'', ''b''})"
    by (simp add: loop_b_def insert_commute)
qed

lemmas example_defs = flour_def dough_def sauce_def loop_a_def loop_b_def pizza_def crust_def
  diamond_def lookup_supply_def

subsection \<open>Claims about the cost function\<close>

text \<open>
  C4. A purchased supply resolved at top level (or with an id not yet on the path) costs
  purchasePrice / purchaseQuantity when the price is present and the quantity is positive,
  and is Unknown (null) when the price is absent or the quantity is absent or not positive.
\<close>

theorem purchased_cost:
  assumes "supply_type s = ''purchased''" and "supply_id s \<notin> visited"
  shows "getSupplyCostPerUnit s g visited =
           (case (purchase_price s, purchase_quantity s) of
              (Some price, Some qty) \<Rightarrow> if 0 < qty then Inr (Some (price / qty)) else Inr None
            | _ \<Rightarrow> Inr None)"
  using assms by (simp add: getSupplyCostPerUnit.simps split: option.splits)

theorem purchased_cost_witness:
  "supply_type flour = ''purchased'' \<and> supply_id flour \<notin> {} \<and>
   getSupplyCostPerUnit flour [flour] {} = Inr (Some 5)"
  using purchased_cost [of flour "{}" "[flour]"] by (simp add: flour_def)

text \<open>
  C3 (as amended). For a composed supply of the graph (any supply that is not purchased),
  resolved at top level, with the recipe lines resolved at top level too:
  \<^item> it is Unknown when its recipe is empty or its yield is absent or not positive;
  \<^item> it costs \<open>(\<Sum> lineCost \<times> lineQuantity) / yieldAmount\<close> when the recipe is not empty, the
    yield is positive and every line names a supply of the graph that resolves to a number;
  \<^item> it is Unknown when some line names a supply absent from the graph or one that resolves
    to Unknown, provided no line before that one resolves to the circular reference.
\<close>

theorem composed_cost:
  assumes "supply_type s \<noteq> ''purchased''" and "lookup_supply g (supply_id s) = Some s"
  shows "(recipe s = [] \<or> yield_amount s = None \<or> (\<exists>y. yield_amount s = Some y \<and> y \<le> 0)
            \<longrightarrow> getSupplyCostPerUnit s g {} = Inr None)
       \<and> (recipe s \<noteq> [] \<and> yield_amount s = Some y \<and> 0 < y \<and>
           (\<forall>l \<in> set (recipe s). \<exists>sub. lookup_supply g (supplyId l) = Some sub \<and>
               getSupplyCostPerUnit sub g {} = Inr (Some (c l)))
            \<longrightarrow> getSupplyCostPerUnit s g {} = Inr (Some ((\<Sum>l\<leftarrow>recipe s. c l * quantity l) / y)))
       \<and> (recipe s = before @ line # after \<and>
           (\<forall>l \<in> set before. \<forall>sub. lookup_supply g (supplyId l) = Some sub \<longrightarrow>
               getSupplyCostPerUnit sub g {} \<noteq> Inl CircularReference) \<and>
           (lookup_supply g (supplyId line) = None \<or>
            (\<exists>sub. lookup_supply g (supplyId line) = Some sub \<and>
               getSupplyCostPerUnit sub g {} = Inr None))
            \<longrightarrow> getSupplyCostPerUnit s g {} = Inr None)"
proof (intro conjI impI)
  assume "recipe s = [] \<or> yield_amount s = None \<or> (\<exists>y. yield_amount s = Some y \<and> y \<le> 0)"
  then show "getSupplyCostPerUnit s g {} = Inr None"
    using cost_no_walk[of s "{}" g] assms(1) by auto
next
  assume h: "recipe s \<noteq> [] \<and> yield_amount s = Some y \<and> 0 < y \<and>
           (\<forall>l \<in> set (recipe s). \<exists>sub. lookup_supply g (supplyId l) = Some sub \<and>
               getSupplyCostPerUnit sub g {} = Inr (Some (c l)))"
  show "getSupplyCostPerUnit s g {} = Inr (Some ((\<Sum>l\<leftarrow>recipe s. c l * quantity l) / y))"
    by (rule composed_known_top[OF assms]) (use h in simp_all)
next
  assume h: "recipe s = before @ line # after \<and>
           (\<forall>l \<in> set before. \<forall>sub. lookup_supply g (supplyId l) = Some sub \<longrightarrow>
               getSupplyCostPerUnit sub g {} \<noteq> Inl CircularReference) \<and>
           (lookup_supply g (supplyId line) = None \<or>
            (\<exists>sub. lookup_supply g (supplyId line) = Some sub \<and>
               getSupplyCostPerUnit sub g {} = Inr None))"
  show "getSupplyCostPerUnit s g {} = Inr None"
    by (rule composed_unknown_top[OF assms, of before line after]) (use h in simp_all)
qed

theorem composed_cost_witness:
  "getSupplyCostPerUnit (dough\<lparr>yield_amount := None\<rparr>) [flour, dough\<lparr>yield_amount := None\<rparr>] {} = Inr None
   \<and> getSupplyCostPerUnit dough [flour, dough] {} = Inr (Some 1)
   \<and> getSupplyCostPerUnit sauce [flour, sauce] {} = Inr None"
proof (intro conjI)
  let ?d = "dough\<lparr>yield_amount := None\<rparr>"
  have h: "supply_type ?d \<noteq> ''purchased''" "lookup_supply [flour, ?d] (supply_id ?d) = Some ?d"
    "yield_amount ?d = None"
    by (simp_all add: example_defs)
  show "getSupplyCostPerUnit ?d [flour, ?d] {} = Inr None"
    using composed_cost[OF h(1,2)] h(3) by blast
next
  have h: "supply_type dough \<noteq> ''purchased''" "lookup_supply [flour, dough] (supply_id dough) = Some dough"
    by (simp_all add: example_defs)
  have lines: "recipe dough \<noteq> [] \<and> yield_amount dough = Some 10 \<and> (0::rat) < 10 \<and>
      (\<forall>l \<in> set (recipe dough). \<exists>sub. lookup_supply [flour, dough] (supplyId l) = Some sub \<and>
         getSupplyCostPerUnit sub [flour, dough] {} = Inr (Some ((\<lambda>l. 5) l)))"
    by (simp add: getSupplyCostPerUnit.simps example_defs)
  have "getSupplyCostPerUnit dough [flour, dough] {}
        = Inr (Some ((\<Sum>l\<leftarrow>recipe dough. (\<lambda>l. 5) l * quantity l) / 10))"
    using composed_cost[OF h, of 10 "\<lambda>l. 5"] lines by blast
  then show "getSupplyCostPerUnit dough [flour, dough] {} = Inr (Some 1)"
    by (simp add: dough_def)
next
  have h: "supply_type sauce \<noteq> ''purchased''" "lookup_supply [flour, sauce] (supply_id sauce) = Some sauce"
    by (simp_all add: example_defs)
  have lines: "recipe sauce = [\<lparr>supplyId = ''flour'', quantity = 1\<rparr>] @ \<lparr>supplyId = ''ghost'', quantity = 1\<rparr> # [] \<and>
      (\<forall>l \<in> set [\<lparr>supplyId = ''flour'', quantity = 1\<rparr>]. \<forall>sub. lookup_supply [flour, sauce] (supplyId l) = Some sub \<longrightarrow>
         getSupplyCostPerUnit sub [flour, sauce] {} \<noteq> Inl CircularReference) \<and>
      (lookup_supply [flour, sauce] (supplyId \<lparr>supplyId = ''ghost'', quantity = 1\<rparr>) = None \<or>
       (\<exists>sub. lookup_supply [flour, sauce] (supplyId \<lparr>supplyId = ''ghost'', quantity = 1\<rparr>) = Some sub \<and>
          getSupplyCostPerUnit sub [flour, sauce] {} = Inr None))"
    by (simp add: getSupplyCostPerUnit.simps example_defs)
  show "getSupplyCostPerUnit sauce [flour, sauce] {} = Inr None"
    using composed_cost[OF h, of _ _ "[\<lparr>supplyId = ''flour'', quantity = 1\<rparr>]"
        "\<lparr>supplyId = ''ghost'', quantity = 1\<rparr>" "[]"] lines by blast
qed

text \<open>
  The claim as written fails where a line before the missing supply runs into a cycle:
  \<open>a\<close> names \<open>b\<close>, which names \<open>a\<close>, and then \<open>ghost\<close>, which no supply of the graph
  has as its id; the result is the circular reference, not Unknown.
\<close>

theorem composed_unknown_counterexample:
  "supply_type loop_a = ''composed''
   \<and> map supplyId (recipe loop_a) = [''b'', ''ghost'']
   \<and> lookup_supply [loop_a, loop_b] ''ghost'' = None
   \<and> getSupplyCostPerUnit loop_a [loop_a, loop_b] {} = Inl CircularReference
   \<and> getSupplyCostPerUnit loop_a [loop_a, loop_b] {} \<noteq> Inr None"
  by (simp add: getSupplyCostPerUnit.simps example_defs)

text \<open>
  C5. The set of ids in progress belongs to one path. In a graph whose recipe references
  are acyclic, resolving a supply of the graph never reports the circular reference, also
  when two lines of a recipe lead to the same supply. And when a resolution path from
  \<open>s0\<close> reaches a call whose supply id is already on that path, the resolution from every
  supply \<open>m\<close> on the path reports the circular reference.
\<close>

theorem cycle_detection_per_path:
  "(acyclic (recipe_edges g) \<and> lookup_supply g (supply_id s) = Some s
      \<longrightarrow> getSupplyCostPerUnit s g {} \<noteq> Inl CircularReference)
   \<and> ((resolution_step g)\<^sup>*\<^sup>* (s0, {}) (m, Vm) \<and> (resolution_step g)\<^sup>*\<^sup>* (m, Vm) (n, V)
        \<and> supply_id n \<in> V \<and> lookup_supply g (supply_id s0) = Some s0
      \<longrightarrow> getSupplyCostPerUnit m g {} = Inl CircularReference)"
proof (intro conjI impI)
  assume "acyclic (recipe_edges g) \<and> lookup_supply g (supply_id s) = Some s"
  then show "getSupplyCostPerUnit s g {} \<noteq> Inl CircularReference"
    by (intro acyclic_no_throw) simp_all
next
  assume "(resolution_step g)\<^sup>*\<^sup>* (s0, {}) (m, Vm) \<and> (resolution_step g)\<^sup>*\<^sup>* (m, Vm) (n, V)
        \<and> supply_id n \<in> V \<and> lookup_supply g (supply_id s0) = Some s0"
  then show "getSupplyCostPerUnit m g {} = Inl CircularReference"
    using repeated_id_throws[of g s0 m Vm n V] by blast
qed

theorem cycle_detection_per_path_witness:
  "acyclic (recipe_edges diamond) \<and> lookup_supply diamond (supply_id pizza) = Some pizza
   \<and> getSupplyCostPerUnit pizza diamond {} = Inr (Some 4)
   \<and> getSupplyCostPerUnit pizza diamond {} \<noteq> Inl CircularReference
   \<and> (resolution_step [loop_a, loop_b])\<^sup>*\<^sup>* (loop_a, {}) (loop_b, {''a''})
   \<and> (resolution_step [loop_a, loop_b])\<^sup>*\<^sup>* (loop_b, {''a''}) (loop_a, {''a'', ''b''})
   \<and> supply_id loop_a \<in> {''a'', ''b''}
   \<and> getSupplyCostPerUnit loop_b [loop_a, loop_b] {} = Inl CircularReference"
proof -
  have dag: "acyclic (recipe_edges diamond) \<and> lookup_supply diamond (supply_id pizza) = Some pizza"
    using diamond_acyclic by (simp add: example_defs)
  have cost: "getSupplyCostPerUnit pizza diamond {} = Inr (Some 4)"
    by (simp add: getSupplyCostPerUnit.simps example_defs)
  have no: "getSupplyCostPerUnit pizza diamond {} \<noteq> Inl CircularReference"
    using cycle_detection_per_path[of diamond pizza] dag by blast
  have p1: "(resolution_step [loop_a, loop_b])\<^sup>*\<^sup>* (loop_a, {}) (loop_b, {''a''})"
    using loop_steps(1) by (rule r_into_rtranclp)
  have p2: "(resolution_step [loop_a, loop_b])\<^sup>*\<^sup>* (loop_b, {''a''}) (loop_a, {''a'', ''b''})"
    using loop_steps(2) by (rule r_into_rtranclp)
  have rep: "supply_id loop_a \<in> {''a'', ''b''}" by (simp add: loop_a_def)
  have ent: "lookup_supply [loop_a, loop_b] (supply_id loop_a) = Some loop_a"
    by (simp add: example_defs)
  have "getSupplyCostPerUnit loop_b [loop_a, loop_b] {} = Inl CircularReference"
    using cycle_detection_per_path[of "[loop_a, loop_b]" _ loop_a loop_b "{''a''}" loop_a "{''a'', ''b''}"]
      p1 p2 rep ent by blast
  then show ?thesis using dag cost no p1 p2 rep by blast
qed

subsection \<open>The list of supplies\<close>

lemma find_filter_other:
  assumes "k \<noteq> j"
  shows "find (\<lambda>s. supply_id s = k) (filter (\<lambda>s. supply_id s \<noteq> j) g) = find (\<lambda>s. supply_id s = k) g"
  using assms by (induction g) auto

lemma lookup_assign_supply:
  "lookup_supply (assign_supply c g) k = (if k = supply_id c then Some c else lookup_supply g k)"
  by (auto simp add: lookup_supply_def assign_supply_def find_filter_other)

lemma supplies_by_id_of_snoc:
  "supplies_by_id_of (rows @ [r]) = assign_supply r (supplies_by_id_of rows)"
  by (simp add: supplies_by_id_of_def)

lemma lookup_supplies_by_id_of:
  assumes "row \<in> set rows"
  shows "\<exists>s. lookup_supply (supplies_by_id_of rows) (supply_id row) = Some s \<and>
             (distinct (map supply_id rows) \<longrightarrow> s = row)"
  using assms
proof (induction rows rule: rev_induct)
  case Nil
  then show ?case by simp
next
  case (snoc r rows)
  show ?case
  proof (cases "supply_id row = supply_id r")
    case True
    have "distinct (map supply_id (rows @ [r])) \<longrightarrow> r = row"
      using snoc.prems True by (auto simp add: image_iff)
    then show ?thesis using True
      by (simp add: supplies_by_id_of_snoc lookup_assign_supply)
  next
    case False
    then have "row \<in> set rows" using snoc.prems by auto
    then show ?thesis using snoc.IH False
      by (auto simp add: supplies_by_id_of_snoc lookup_assign_supply)
  qed
qed

text \<open>
  C8. In the response of GET / every row has its own item, and the cost of an item depends
  on the resolution of its own supply only: it is the number that resolution returns, and
  \<open>null\<close> when that resolution returns \<open>null\<close> or throws the circular reference. The
  supply resolved is the dictionary entry of the row's id, the row itself when ids are
  distinct. A supply on a cycle therefore leaves the items of the other rows as they are.
\<close>

theorem list_supplies_costs:
  "length (list_supplies rows) = length rows \<and>
   (\<forall>i < length rows. \<exists>s.
      lookup_supply (supplies_by_id_of rows) (supply_id (rows ! i)) = Some s \<and>
      (distinct (map supply_id rows) \<longrightarrow> s = rows ! i) \<and>
      list_supplies rows ! i =
        (rows ! i, case getSupplyCostPerUnit s (supplies_by_id_of rows) {} of Inl e \<Rightarrow> None | Inr c \<Rightarrow> c))"
proof (intro conjI allI impI)
  show "length (list_supplies rows) = length rows" by (simp add: list_supplies_def Let_def)
next
  fix i assume i: "i < length rows"
  then obtain s where s: "lookup_supply (supplies_by_id_of rows) (supply_id (rows ! i)) = Some s"
    "distinct (map supply_id rows) \<longrightarrow> s = rows ! i"
    using lookup_supplies_by_id_of[of "rows ! i" rows] by auto
  have "list_supplies rows ! i =
        (rows ! i, case getSupplyCostPerUnit s (supplies_by_id_of rows) {} of Inl e \<Rightarrow> None | Inr c \<Rightarrow> c)"
    using i s(1) by (simp add: list_supplies_def cost_or_null_def Let_def)
  then show "\<exists>s. lookup_supply (supplies_by_id_of rows) (supply_id (rows ! i)) = Some s \<and>
      (distinct (map supply_id rows) \<longrightarrow> s = rows ! i) \<and>
      list_supplies rows ! i =
        (rows ! i, case getSupplyCostPerUnit s (supplies_by_id_of rows) {} of Inl e \<Rightarrow> None | Inr c \<Rightarrow> c)"
    using s by blast
qed

theorem list_supplies_costs_witness:
  "list_supplies [loop_a, loop_b, flour] ! 2 = (flour, Some 5)
   \<and> list_supplies [loop_a, loop_b, flour] ! 0 = (loop_a, None)
   \<and> getSupplyCostPerUnit loop_a (supplies_by_id_of [loop_a, loop_b, flour]) {} = Inl CircularReference"
proof -
  let ?rows = "[loop_a, loop_b, flour]"
  have d: "distinct (map supply_id ?rows)" by (simp add: example_defs)
  have g: "supplies_by_id_of ?rows = [flour, loop_b, loop_a]"
    by (simp add: supplies_by_id_of_def assign_supply_def example_defs)
  have c2: "getSupplyCostPerUnit flour (supplies_by_id_of ?rows) {} = Inr (Some 5)"
    unfolding g by (simp add: getSupplyCostPerUnit.simps example_defs)
  have c0: "getSupplyCostPerUnit loop_a (supplies_by_id_of ?rows) {} = Inl CircularReference"
    unfolding g by (simp add: getSupplyCostPerUnit.simps example_defs)
  from list_supplies_costs[of ?rows] d
  have "\<forall>i < length ?rows. list_supplies ?rows ! i =
        (?rows ! i, case getSupplyCostPerUnit (?rows ! i) (supplies_by_id_of ?rows) {} of
                      Inl e \<Rightarrow> None | Inr c \<Rightarrow> c)"
    by metis
  then have "list_supplies ?rows ! 2 =
        (?rows ! 2, case getSupplyCostPerUnit (?rows ! 2) (supplies_by_id_of ?rows) {} of
                      Inl e \<Rightarrow> None | Inr c \<Rightarrow> c)"
    and "list_supplies ?rows ! 0 =
        (?rows ! 0, case getSupplyCostPerUnit (?rows ! 0) (supplies_by_id_of ?rows) {} of
                      Inl e \<Rightarrow> None | Inr c \<Rightarrow> c)"
    by simp_all
  then show ?thesis using c2 c0 by simp
qed

subsection \<open>Termination and depth of the resolution\<close>

lemma recipe_loop_depth_eq:
  assumes "\<forall>l \<in> set ls. \<forall>sub. lookup_supply g (supplyId l) = Some sub \<longrightarrow> fd sub = Some (f sub)"
  shows "recipe_loop_depth fd g ls t = Some (recipe_loop f g ls t)"
  using assms
proof (induction ls arbitrary: t)
  case Nil
  show ?case by simp
next
  case (Cons l ls)
  have ih: "recipe_loop_depth fd g ls t' = Some (recipe_loop f g ls t')" for t'
    using Cons.IH Cons.prems by simp
  show ?case
  proof (cases "lookup_supply g (supplyId l)")
    case None
    then show ?thesis by simp
  next
    case (Some sub)
    then have "fd sub = Some (f sub)" using Cons.prems by simp
    then show ?thesis using Some ih by (simp split: sum.splits option.splits)
  qed
qed

lemma depth_enough:
  assumes "card ((supply_id ` set g \<union> {supply_id s}) - V) < depth"
  shows "getSupplyCostPerUnit_depth depth s g V = Some (getSupplyCostPerUnit s g V)"
  using assms
proof (induction depth arbitrary: s V)
  case 0
  then show ?case by simp
next
  case (Suc d)
  show ?case
  proof (cases "supply_id s \<in> V")
    case True
    then show ?thesis by (simp add: cost_entry_check)
  next
    case nin: False
    show ?thesis
    proof (cases "supply_type s = ''purchased'' \<or> recipe s = [] \<or> yield_amount s = None
                \<or> (\<exists>y. yield_amount s = Some y \<and> y \<le> 0)")
      case True
      then show ?thesis unfolding cost_no_walk[OF nin True] using nin
        by (auto split: option.splits)
    next
      case False
      then obtain y where y: "yield_amount s = Some y" "\<not> y \<le> 0"
        and np: "supply_type s \<noteq> ''purchased''" and ne: "recipe s \<noteq> []"
        by auto
      let ?V = "insert (supply_id s) V"
      let ?U = "supply_id ` set g"
      have sub_ok: "getSupplyCostPerUnit_depth d sub g ?V = Some (getSupplyCostPerUnit sub g ?V)"
        if lk: "lookup_supply g (supplyId l) = Some sub" for l sub
      proof (rule Suc.IH)
        from lk have "sub \<in> set g" by (simp add: lookup_supply_Some)
        then have eq: "?U \<union> {supply_id sub} = ?U" by auto
        have "(?U - ?V) \<subset> ((?U \<union> {supply_id s}) - V)" using nin by auto
        moreover have "finite ((?U \<union> {supply_id s}) - V)" by simp
        ultimately have "card (?U - ?V) < card ((?U \<union> {supply_id s}) - V)"
          by (rule psubset_card_mono[rotated])
        then show "card ((?U \<union> {supply_id sub}) - ?V) < d" using Suc.prems eq by simp
      qed
      have "recipe_loop_depth (\<lambda>sub. getSupplyCostPerUnit_depth d sub g ?V) g (recipe s) 0
            = Some (recipe_loop (\<lambda>sub. getSupplyCostPerUnit sub g ?V) g (recipe s) 0)"
        by (rule recipe_loop_depth_eq) (use sub_ok in blast)
      then show ?thesis unfolding cost_composed_unfold[OF nin np ne y] using nin np ne y
        by (simp split: sum.splits option.splits)
    qed
  qed
qed

text \<open>
  C9. The cost function is total (its termination is proved with the definition: every
  nested call adds an id of the graph to the path), and for a supply of the graph a depth
  of one more than the number of supplies is never exceeded: the depth-limited function
  returns the same result, which is the circular reference, Unknown or a number. Recipe
  lines that name no supply of the graph end in Unknown and cycles in the circular
  reference.
\<close>

theorem resolution_terminates:
  assumes "s \<in> set g" and "length g < depth"
  shows "getSupplyCostPerUnit_depth depth s g {} = Some (getSupplyCostPerUnit s g {})
         \<and> (getSupplyCostPerUnit s g {} = Inl CircularReference
            \<or> getSupplyCostPerUnit s g {} = Inr None
            \<or> (\<exists>c. getSupplyCostPerUnit s g {} = Inr (Some c)))"
proof
  have "supply_id ` set g \<union> {supply_id s} = supply_id ` set g" using assms(1) by auto
  moreover have "card (supply_id ` set g) \<le> length g"
    by (metis card_image_le card_length le_trans List.finite_set)
  ultimately have "card ((supply_id ` set g \<union> {supply_id s}) - {}) < depth"
    using assms(2) by simp
  then show "getSupplyCostPerUnit_depth depth s g {} = Some (getSupplyCostPerUnit s g {})"
    by (rule depth_enough)
next
  show "getSupplyCostPerUnit s g {} = Inl CircularReference
            \<or> getSupplyCostPerUnit s g {} = Inr None
            \<or> (\<exists>c. getSupplyCostPerUnit s g {} = Inr (Some c))"
  proof (cases "getSupplyCostPerUnit s g {}")
    case (Inl e)
    then show ?thesis by (cases e) simp
  next
    case (Inr r)
    then show ?thesis by (cases r) simp_all
  qed
qed

theorem resolution_terminates_witness:
  "loop_a \<in> set [loop_a, loop_b] \<and> length [loop_a, loop_b] < 3
   \<and> getSupplyCostPerUnit_depth 3 loop_a [loop_a, loop_b] {} = Some (Inl CircularReference)
   \<and> getSupplyCostPerUnit_depth 2 loop_a [loop_a, loop_b] {} = None"
proof -
  have h: "loop_a \<in> set [loop_a, loop_b]" "length [loop_a, loop_b] < 3" by simp_all
  have v: "getSupplyCostPerUnit loop_a [loop_a, loop_b] {} = Inl CircularReference"
    by (simp add: getSupplyCostPerUnit.simps example_defs)
  have "getSupplyCostPerUnit_depth 3 loop_a [loop_a, loop_b] {} = Some (getSupplyCostPerUnit loop_a [loop_a, loop_b] {})"
    using resolution_terminates[OF h] by blast
  moreover have "getSupplyCostPerUnit_depth 2 loop_a [loop_a, loop_b] {} = None"
    by (simp add: numeral_2_eq_2 example_defs)
  ultimately show ?thesis using h v by simp
qed

subsection \<open>Validation of candidates\<close>

lemmas validate_defs = validate_supply_def update_supply_def create_supply_def falsy_def
  VALID_UNITS_def normalize_recipe_def List.map_filter_def supplies_by_id_of_def assign_supply_def
  lookup_supply_def




text \<open>
  C2 at its failing input. The update of masa is accepted although the graph with the
  candidate in it has the cycle masa, salsa, masa: the walk returns \<open>null\<close> at the first
  recipe line, which names a missing supply, and never reaches the line that closes the
  cycle.
\<close>

theorem cycle_check_misses_cycle:
  "update_supply ''masa'' masa_body [salsa] = Inr masa
   \<and> assign_supply masa (supplies_by_id_of [salsa]) = [masa, salsa]
   \<and> recipe_refs [masa, salsa] ''masa'' = [''ghost'', ''salsa'']
   \<and> recipe_refs [masa, salsa] ''salsa'' = [''masa'']
   \<and> lookup_supply [masa, salsa] ''ghost'' = None"
  by (simp add: validate_defs masa_body_def masa_def salsa_def recipe_refs_def
      getSupplyCostPerUnit.simps)




subsection \<open>Closing an open account\<close>

lemmas close_defs = close_account_def falsy_def discount_requested_def last_order_of_def
  settle_orders_def settle_order_def discount_last_order_def discount_order_def
  trim_def is_space_def Let_def

lemma newest_in: "newest xs = Some l \<Longrightarrow> l \<in> set xs"
  by (induction xs arbitrary: l) (auto split: option.splits if_splits)

lemma newest_max: "newest xs = Some l \<Longrightarrow> \<forall>x \<in> set xs. created_at x \<le> created_at l"
proof (induction xs arbitrary: l)
  case Nil
  then show ?case by simp
next
  case (Cons a xs)
  show ?case
  proof (cases "newest xs")
    case None
    then have "xs = []" by (cases xs) (auto split: option.splits if_splits)
    then show ?thesis using Cons.prems None by simp
  next
    case (Some p)
    have ih: "\<forall>y \<in> set xs. created_at y \<le> created_at p"
      using Cons.IH[OF Some] by simp
    show ?thesis
    proof (cases "created_at a < created_at p")
      case True
      then have "l = p" using Cons.prems(1) Some by simp
      then show ?thesis using ih True by auto
    next
      case False
      then have "l = a" using Cons.prems(1) Some by simp
      then show ?thesis using ih False by fastforce
    qed
  qed
qed

lemma last_order_of_props:
  assumes "last_order_of acc rows = Some l"
  shows "l \<in> set rows" and "open_account_id l = Some acc"
    and "\<forall>x \<in> set rows. open_account_id x = Some acc \<longrightarrow> created_at x \<le> created_at l"
proof -
  have "l \<in> set (filter (\<lambda>x. open_account_id x = Some acc) rows)"
    using assms unfolding last_order_of_def by (rule newest_in)
  then show "l \<in> set rows" and "open_account_id l = Some acc" by simp_all
  show "\<forall>x \<in> set rows. open_account_id x = Some acc \<longrightarrow> created_at x \<le> created_at l"
    using newest_max[OF assms[unfolded last_order_of_def]] by simp
qed

lemma same_id_same_row:
  assumes "distinct (map order_id rows)" and "x \<in> set rows" and "l \<in> set rows"
    and "order_id x = order_id l"
  shows "x = l"
  using assms by (meson distinct_map inj_onD)

lemma close_account_orders:
  assumes "close_account acc body st = Inr st'"
  shows "orders st' = map (closed_row acc body st) (orders st)"
  using assms
  by (auto simp add: close_account_def closed_row_def Let_def settle_orders_def
      discount_last_order_def split: if_splits option.splits)

lemma settle_order_keeps:
  "order_id (settle_order acc method mp name x) = order_id x"
  "order_total (settle_order acc method mp name x) = order_total x"
  "order_discount (settle_order acc method mp name x) = order_discount x"
  "discount_reason (settle_order acc method mp name x) = discount_reason x"
  by (simp_all add: settle_order_def)

lemma closed_row_not_last:
  assumes "\<not> (discount_requested body \<and> (\<exists>l. last_order_of acc (orders st) = Some l \<and> order_id l = order_id x))"
  shows "closed_row acc body st x =
           settle_order acc (the (paymentMethod body))
             (if the (paymentMethod body) = ''mercadopago'' then mercadoPagoAccountId body else None)
             (account_name (the (find (\<lambda>a. account_id a = acc) (open_accounts st)))) x"
  using assms
  by (auto simp add: closed_row_def Let_def discount_order_def settle_order_keeps split: option.splits)

lemma closed_row_last:
  assumes "discount_requested body" and "last_order_of acc (orders st) = Some l"
    and "order_id x = order_id l"
  shows "closed_row acc body st x =
           (settle_order acc (the (paymentMethod body))
             (if the (paymentMethod body) = ''mercadopago'' then mercadoPagoAccountId body else None)
             (account_name (the (find (\<lambda>a. account_id a = acc) (open_accounts st)))) x)
           \<lparr>order_total := max 0 (order_total l - the (discount body)),
            order_discount := Some ((case order_discount l of None \<Rightarrow> 0 | Some e \<Rightarrow> e) + the (discount body)),
            discount_reason := Some
              ((case discount_reason l of None \<Rightarrow> [] | Some r \<Rightarrow> if trim r = [] then [] else trim r @ '' '')
               @ ''Descuento de la cuenta: '' @ trim (the (discountReason body)))\<rparr>"
  using assms
  by (auto simp add: closed_row_def Let_def discount_order_def settle_order_keeps split: option.splits)

lemma closed_row_frame:
  assumes pk: "distinct (map order_id (orders st))" and x: "x \<in> set (orders st)"
  shows "order_id (closed_row acc body st x) = order_id x"
    and "discount_requested body \<and> last_order_of acc (orders st) = Some x \<Longrightarrow>
           order_total (closed_row acc body st x) = max 0 (order_total x - the (discount body))"
    and "\<not> (discount_requested body \<and> last_order_of acc (orders st) = Some x) \<Longrightarrow>
           order_total (closed_row acc body st x) = order_total x \<and>
           order_discount (closed_row acc body st x) = order_discount x \<and>
           discount_reason (closed_row acc body st x) = discount_reason x"
    and "open_account_id x = Some acc \<Longrightarrow>
           payment_method (closed_row acc body st x) = the (paymentMethod body) \<and>
           open_account_id (closed_row acc body st x) = None \<and>
           closed_open_account_id (closed_row acc body st x) = Some acc"
    and "open_account_id x \<noteq> Some acc \<Longrightarrow> closed_row acc body st x = x"
proof -
  have not_last: "\<not> (discount_requested body \<and> (\<exists>l. last_order_of acc (orders st) = Some l \<and> order_id l = order_id x))"
    if "\<not> (discount_requested body \<and> last_order_of acc (orders st) = Some x)"
  proof
    assume a: "discount_requested body \<and> (\<exists>l. last_order_of acc (orders st) = Some l \<and> order_id l = order_id x)"
    then obtain l where l: "last_order_of acc (orders st) = Some l" "order_id l = order_id x" by blast
    have "l \<in> set (orders st)" using l(1) by (rule last_order_of_props(1))
    then have "x = l" using same_id_same_row[OF pk x] l(2) by simp
    then show False using that a l(1) by simp
  qed
  show "order_id (closed_row acc body st x) = order_id x"
    by (auto simp add: closed_row_def Let_def discount_order_def settle_order_keeps split: option.splits)
  show "order_total (closed_row acc body st x) = max 0 (order_total x - the (discount body))"
    if "discount_requested body \<and> last_order_of acc (orders st) = Some x"
    using that by (simp add: closed_row_last[of body acc st x x])
  show "order_total (closed_row acc body st x) = order_total x \<and>
           order_discount (closed_row acc body st x) = order_discount x \<and>
           discount_reason (closed_row acc body st x) = discount_reason x"
    if "\<not> (discount_requested body \<and> last_order_of acc (orders st) = Some x)"
    by (simp add: closed_row_not_last[OF not_last[OF that]] settle_order_keeps)
  show "payment_method (closed_row acc body st x) = the (paymentMethod body) \<and>
           open_account_id (closed_row acc body st x) = None \<and>
           closed_open_account_id (closed_row acc body st x) = Some acc"
    if "open_account_id x = Some acc"
    using that
    by (auto simp add: closed_row_def Let_def discount_order_def settle_order_def split: option.splits)
  show "closed_row acc body st x = x" if "open_account_id x \<noteq> Some acc"
  proof -
    have "\<not> (discount_requested body \<and> last_order_of acc (orders st) = Some x)"
      using that last_order_of_props(2)[of acc "orders st" x] by auto
    then show ?thesis using that
      by (simp add: closed_row_not_last[OF not_last] settle_order_def)
  qed
qed

lemma close_account_any_discount:
  assumes "close_account acc body st = Inr st'"
  shows "\<exists>st''. close_account acc (body\<lparr>discount := Some d\<rparr>) st = Inr st''"
  using assms
  by (auto simp add: close_account_def Let_def split: if_splits option.splits)

lemma tab_closed:
  "close_account ''t1'' (close_with d) tab_store = Inr (projr (close_account ''t1'' (close_with d) tab_store))"
  by (simp add: close_account_def falsy_def tab_store_def close_with_def Let_def)

lemma tab_facts:
  "distinct (map order_id (orders tab_store))"
  "0 < d \<Longrightarrow> discount_requested (close_with d)"
  "last_order_of ''t1'' (orders tab_store) = Some (orders tab_store ! 0)"
  "length (orders tab_store) = 3"
  by (simp_all add: tab_store_def tab_order_def close_with_def discount_requested_def falsy_def
      trim_def is_space_def last_order_of_def)

lemma close_account_last_order_frame:
  assumes "close_account acc body st = Inr st'" and "distinct (map order_id (orders st))"
  shows "length (orders st') = length (orders st) \<and>
     (\<forall>i < length (orders st).
        order_id (orders st' ! i) = order_id (orders st ! i) \<and>
        (if discount_requested body \<and> last_order_of acc (orders st) = Some (orders st ! i)
         then order_total (orders st' ! i) = max 0 (order_total (orders st ! i) - the (discount body))
              \<and> 0 \<le> order_total (orders st' ! i)
         else order_total (orders st' ! i) = order_total (orders st ! i)
              \<and> order_discount (orders st' ! i) = order_discount (orders st ! i)
              \<and> discount_reason (orders st' ! i) = discount_reason (orders st ! i)) \<and>
        (if open_account_id (orders st ! i) = Some acc
         then payment_method (orders st' ! i) = the (paymentMethod body)
              \<and> open_account_id (orders st' ! i) = None
              \<and> closed_open_account_id (orders st' ! i) = Some acc
         else orders st' ! i = orders st ! i)) \<and>
     (\<forall>i j. i < length (orders st) \<and> j < length (orders st)
          \<and> last_order_of acc (orders st) = Some (orders st ! i)
          \<and> last_order_of acc (orders st) = Some (orders st ! j) \<longrightarrow> i = j) \<and>
     (\<forall>l. last_order_of acc (orders st) = Some l \<longrightarrow>
          l \<in> set (orders st) \<and> open_account_id l = Some acc \<and>
          (\<forall>x \<in> set (orders st). open_account_id x = Some acc \<longrightarrow> created_at x \<le> created_at l)) \<and>
     (discount_requested body \<longrightarrow>
          (\<exists>d r. discount body = Some d \<and> 0 < d \<and> discountReason body = Some r \<and> r \<noteq> []))"
proof (intro conjI allI impI)
  note eq = close_account_orders[OF assms(1)]
  show "length (orders st') = length (orders st)" by (simp add: eq)
  fix i assume i: "i < length (orders st)"
  then have x: "orders st ! i \<in> set (orders st)" by simp
  have nth: "orders st' ! i = closed_row acc body st (orders st ! i)" using i by (simp add: eq)
  note fr = closed_row_frame[OF assms(2) x, where acc = acc and body = body]
  show "order_id (orders st' ! i) = order_id (orders st ! i)" by (simp add: nth fr(1))
  show "if discount_requested body \<and> last_order_of acc (orders st) = Some (orders st ! i)
         then order_total (orders st' ! i) = max 0 (order_total (orders st ! i) - the (discount body))
              \<and> 0 \<le> order_total (orders st' ! i)
         else order_total (orders st' ! i) = order_total (orders st ! i)
              \<and> order_discount (orders st' ! i) = order_discount (orders st ! i)
              \<and> discount_reason (orders st' ! i) = discount_reason (orders st ! i)"
    using fr(2,3) by (simp add: nth)
  show "if open_account_id (orders st ! i) = Some acc
         then payment_method (orders st' ! i) = the (paymentMethod body)
              \<and> open_account_id (orders st' ! i) = None
              \<and> closed_open_account_id (orders st' ! i) = Some acc
         else orders st' ! i = orders st ! i"
    using fr(4,5) by (simp add: nth)
next
  fix i j
  assume a: "i < length (orders st) \<and> j < length (orders st)
          \<and> last_order_of acc (orders st) = Some (orders st ! i)
          \<and> last_order_of acc (orders st) = Some (orders st ! j)"
  then have "orders st ! i = orders st ! j" by (metis option.inject)
  moreover have "distinct (orders st)" using assms(2) by (simp add: distinct_map)
  ultimately show "i = j" using a by (simp add: nth_eq_iff_index_eq)
next
  fix l assume l: "last_order_of acc (orders st) = Some l"
  show "l \<in> set (orders st)" using l by (rule last_order_of_props(1))
  show "open_account_id l = Some acc" using l by (rule last_order_of_props(2))
  show "\<forall>x \<in> set (orders st). open_account_id x = Some acc \<longrightarrow> created_at x \<le> created_at l"
    using l by (rule last_order_of_props(3))
next
  assume "discount_requested body"
  then show "\<exists>d r. discount body = Some d \<and> 0 < d \<and> discountReason body = Some r \<and> r \<noteq> []"
    by (cases "discount body"; cases "discountReason body")
       (simp_all add: discount_requested_def falsy_def)
qed

lemma close_account_last_order_discount:
  assumes "close_account acc body st = Inr st'" and "distinct (map order_id (orders st))"
    and "discount_requested body" and "i < length (orders st)"
    and "last_order_of acc (orders st) = Some (orders st ! i)"
  shows "order_total (orders st' ! i) = max 0 (order_total (orders st ! i) - the (discount body))
     \<and> order_discount (orders st' ! i) =
         Some ((case order_discount (orders st ! i) of None \<Rightarrow> 0 | Some e \<Rightarrow> e) + the (discount body))
     \<and> discount_reason (orders st' ! i) =
         Some ((case discount_reason (orders st ! i) of None \<Rightarrow> []
                | Some r \<Rightarrow> if trim r = [] then [] else trim r @ '' '')
               @ ''Descuento de la cuenta: '' @ trim (the (discountReason body)))
     \<and> (\<forall>j < length (orders st). j \<noteq> i \<longrightarrow>
           order_total (orders st' ! j) = order_total (orders st ! j) \<and>
           order_discount (orders st' ! j) = order_discount (orders st ! j) \<and>
           discount_reason (orders st' ! j) = discount_reason (orders st ! j))
     \<and> (\<forall>d. \<exists>st''. close_account acc (body\<lparr>discount := Some d\<rparr>) st = Inr st'')"
proof -
  note eq = close_account_orders[OF assms(1)]
  have nth: "orders st' ! i = closed_row acc body st (orders st ! i)" using assms(4) by (simp add: eq)
  note last = closed_row_last[OF assms(3,5) refl]
  have t: "order_total (orders st' ! i) = max 0 (order_total (orders st ! i) - the (discount body))"
    by (simp add: nth last)
  have d: "order_discount (orders st' ! i) =
         Some ((case order_discount (orders st ! i) of None \<Rightarrow> 0 | Some e \<Rightarrow> e) + the (discount body))"
    by (simp add: nth last)
  have r: "discount_reason (orders st' ! i) =
         Some ((case discount_reason (orders st ! i) of None \<Rightarrow> []
                | Some r \<Rightarrow> if trim r = [] then [] else trim r @ '' '')
               @ ''Descuento de la cuenta: '' @ trim (the (discountReason body)))"
    by (simp add: nth last)
  have any: "\<forall>d. \<exists>st''. close_account acc (body\<lparr>discount := Some d\<rparr>) st = Inr st''"
    using assms(1) by (blast intro: close_account_any_discount)
  have others: "order_total (orders st' ! j) = order_total (orders st ! j) \<and>
           order_discount (orders st' ! j) = order_discount (orders st ! j) \<and>
           discount_reason (orders st' ! j) = discount_reason (orders st ! j)"
    if j: "j < length (orders st)" "j \<noteq> i" for j
  proof -
    have "distinct (orders st)" using assms(2) by (simp add: distinct_map)
    then have "orders st ! j \<noteq> orders st ! i" using j assms(4) by (simp add: nth_eq_iff_index_eq)
    then have nl: "\<not> (discount_requested body \<and> last_order_of acc (orders st) = Some (orders st ! j))"
      using assms(5) by simp
    have x: "orders st ! j \<in> set (orders st)" using j by simp
    have nthj: "orders st' ! j = closed_row acc body st (orders st ! j)" using j by (simp add: eq)
    show ?thesis using closed_row_frame(3)[OF assms(2) x nl] by (simp add: nthj)
  qed
  show ?thesis using t d r any others by blast
qed

subsection \<open>The walk over all orders of the account\<close>

lemma distribute_discount_map:
  "distribute_discount part r os rows = map (walked_row part r os) rows"
proof (induction os arbitrary: r rows)
  case Nil
  show ?case by simp
next
  case (Cons row rest)
  show ?case
    by (simp add: Cons.IH Let_def comp_def split: option.splits)
qed

lemma walked_row_id: "order_id (walked_row part r os y) = order_id y"
  by (induction os arbitrary: r y) (simp_all add: Let_def)

lemma walked_row_other:
  "order_id y \<notin> order_id ` set os \<Longrightarrow> walked_row part r os y = y"
  by (induction os arbitrary: r y) (simp_all add: Let_def)

lemma allocation_length: "length (allocation r ts) = length ts"
  by (induction ts arbitrary: r) (simp_all add: Let_def)

lemma walked_row_allocation:
  assumes "distinct (map order_id os)" and "i < length os" and "order_id y = order_id (os ! i)"
  shows "walked_row part r os y =
           (if 0 < allocation r (map order_total os) ! i
            then y\<lparr>order_total := order_total (os ! i) - allocation r (map order_total os) ! i,
                   order_discount := Some ((case order_discount (os ! i) of None \<Rightarrow> 0 | Some d \<Rightarrow> d)
                                           + allocation r (map order_total os) ! i),
                   discount_reason := Some
                     ((case discount_reason (os ! i) of None \<Rightarrow> []
                       | Some r \<Rightarrow> if trim r = [] then [] else trim r @ '' '')
                      @ part)\<rparr>
            else y)"
  using assms
proof (induction os arbitrary: r i y)
  case Nil
  then show ?case by simp
next
  case (Cons row rest)
  have dist: "distinct (map order_id rest)" and fresh: "order_id row \<notin> order_id ` set rest"
    using Cons.prems(1) by simp_all
  show ?case
  proof (cases "r \<le> 0")
    case True
    have "replicate (Suc (length rest)) (0::rat) ! i = 0"
      using Cons.prems(2) by (intro nth_replicate) simp
    then show ?thesis using True by simp
  next
    case pos: False
    let ?a = "min r (max 0 (order_total row))"
    have a0: "0 \<le> ?a" using pos by simp
    show ?thesis
    proof (cases i)
      case 0
      then have idy: "order_id y = order_id row" using Cons.prems(3) by simp
      then have "order_id y \<notin> order_id ` set rest" using fresh by simp
      then have keep: "walked_row part r' rest z = z" if "order_id z = order_id y" for r' z
        using that by (intro walked_row_other) simp
      show ?thesis
      proof (cases "?a \<le> 0")
        case True
        then show ?thesis using pos 0 idy keep[of y] by (simp add: Let_def)
      next
        case False
        then show ?thesis using pos 0 idy
          by (simp add: Let_def keep)
      qed
    next
      case (Suc j)
      then have j: "j < length rest" and idj: "order_id y = order_id (rest ! j)"
        using Cons.prems(2,3) by simp_all
      then have ne: "order_id y \<noteq> order_id row" using fresh by (metis image_eqI nth_mem)
      show ?thesis
      proof (cases "?a \<le> 0")
        case True
        then have "?a = 0" using a0 by simp
        then show ?thesis using pos Suc True Cons.IH[OF dist j idj, of r]
          by (simp add: Let_def)
      next
        case False
        then show ?thesis using pos Suc ne Cons.IH[OF dist j idj, of "r - ?a"]
          by (simp add: Let_def)
      qed
    qed
  qed
qed

lemma allocation_bounds:
  "i < length ts \<Longrightarrow> 0 \<le> allocation r ts ! i \<and> allocation r ts ! i \<le> max 0 (ts ! i)"
proof (induction ts arbitrary: r i)
  case Nil
  then show ?case by simp
next
  case (Cons t ts)
  show ?case
  proof (cases "r \<le> 0")
    case True
    have "replicate (Suc (length ts)) (0::rat) ! i = 0"
      using Cons.prems by (intro nth_replicate) simp
    then show ?thesis using True by simp
  next
    case False
    then show ?thesis using Cons.IH Cons.prems by (cases i) (simp_all add: Let_def)
  qed
qed

lemma sum_max_nonneg: "0 \<le> (\<Sum>t\<leftarrow>ts. max (0::rat) t)"
  by (induction ts) simp_all

lemma allocation_sum:
  "sum_list (allocation r ts) = min (max 0 r) (\<Sum>t\<leftarrow>ts. max 0 t)"
proof (induction ts arbitrary: r)
  case Nil
  show ?case by simp
next
  case (Cons t ts)
  have s: "0 \<le> (\<Sum>t\<leftarrow>ts. max (0::rat) t)" by (rule sum_max_nonneg)
  show ?case
  proof (cases "r \<le> 0")
    case True
    then show ?thesis using s by (simp add: sum_list_replicate)
  next
    case False
    then show ?thesis using s Cons.IH[of "r - min r (max 0 t)"]
      by (simp add: Let_def min_def max_def split: if_splits)
  qed
qed

lemma allocation_zero: "r \<le> 0 \<Longrightarrow> i < length ts \<Longrightarrow> allocation r ts ! i = 0"
proof (cases ts)
  case Nil
  assume "i < length ts"
  then show ?thesis using Nil by simp
next
  case (Cons t rest)
  assume r: "r \<le> 0" and i: "i < length ts"
  have "replicate (Suc (length rest)) (0::rat) ! i = 0"
    using i Cons by (intro nth_replicate) simp
  then show ?thesis using r Cons by simp
qed

lemma allocation_newest_first:
  "i < j \<Longrightarrow> j < length ts \<Longrightarrow> 0 < allocation r ts ! j \<Longrightarrow> allocation r ts ! i = max 0 (ts ! i)"
proof (induction ts arbitrary: r i j)
  case Nil
  then show ?case by simp
next
  case (Cons t ts)
  show ?case
  proof (cases "r \<le> 0")
    case True
    then show ?thesis using Cons.prems allocation_zero[of r j "t # ts"] by simp
  next
    case pos: False
    from Cons.prems(1) obtain j' where j': "j = Suc j'" by (cases j) simp_all
    then have jl: "j' < length ts" using Cons.prems(2) by simp
    have later: "0 < allocation (r - min r (max 0 t)) ts ! j'"
      using Cons.prems(3) pos j' by (simp add: Let_def)
    show ?thesis
    proof (cases i)
      case 0
      have "\<not> r - min r (max 0 t) \<le> 0"
        using later allocation_zero[OF _ jl, of "r - min r (max 0 t)"] by auto
      then have "min r (max 0 t) = max 0 t" by (simp add: min_def split: if_splits)
      then show ?thesis using pos 0 by (simp add: Let_def)
    next
      case (Suc i')
      then have "i' < j'" using Cons.prems(1) j' by simp
      then show ?thesis using Cons.IH[OF _ jl later] pos Suc by (simp add: Let_def)
    qed
  qed
qed

lemma close_account_all_orders_rows:
  assumes "close_account_all_orders acc body st = Inr st'"
  shows "orders st' = map (closed_row_all acc body st) (orders st)"
proof -
  have d: "(if os \<noteq> [] then distribute_discount part r os rows else rows)
             = map (walked_row part r os) rows" for os part r rows
  proof (cases os)
    case Nil
    have "map (walked_row part r []) rows = rows" by (induction rows) simp_all
    then show ?thesis using Nil by simp
  next
    case (Cons a list)
    then show ?thesis by (simp add: distribute_discount_map del: distribute_discount.simps walked_row.simps)
  qed
  show ?thesis
    using assms
    by (auto simp add: close_account_all_orders_def closed_row_all_def orders_to_discount_def
        Let_def settle_orders_def d comp_def
        simp del: distribute_discount.simps walked_row.simps
        split: if_splits option.splits)
qed

lemma newest_first_set: "set (newest_first rows) = set rows"
  by (simp add: newest_first_def)

lemma newest_first_distinct:
  "distinct (map order_id rows) \<Longrightarrow> distinct (map order_id (newest_first rows))"
  by (simp add: newest_first_def distinct_map)

lemma newest_first_sorted:
  assumes "i < j" and "j < length (newest_first rows)"
  shows "created_at (newest_first rows ! j) \<le> created_at (newest_first rows ! i)"
proof -
  let ?k = "\<lambda>x. - int (created_at x)"
  have "sorted (map ?k (newest_first rows))" by (simp add: newest_first_def)
  then have "map ?k (newest_first rows) ! i \<le> map ?k (newest_first rows) ! j"
    using assms by (intro sorted_nth_mono) simp_all
  then show ?thesis using assms by simp
qed

lemma orders_to_discount_props:
  assumes pk: "distinct (map order_id (orders st))"
  shows "distinct (map order_id (orders_to_discount acc body st))"
    and "set (orders_to_discount acc body st) \<subseteq> {x \<in> set (orders st). open_account_id x = Some acc}"
    and "discount_requested body \<Longrightarrow>
           set (orders_to_discount acc body st) = {x \<in> set (orders st). open_account_id x = Some acc}"
proof -
  have "distinct (map order_id (filter (\<lambda>x. open_account_id x = Some acc) (orders st)))"
    using pk by (rule distinct_map_filter)
  then show "distinct (map order_id (orders_to_discount acc body st))"
    by (simp add: orders_to_discount_def newest_first_distinct)
  show "set (orders_to_discount acc body st) \<subseteq> {x \<in> set (orders st). open_account_id x = Some acc}"
    by (auto simp add: orders_to_discount_def newest_first_set)
  show "set (orders_to_discount acc body st) = {x \<in> set (orders st). open_account_id x = Some acc}"
    if "discount_requested body"
    using that by (auto simp add: orders_to_discount_def newest_first_set)
qed

lemma closed_row_all_off_tab:
  assumes pk: "distinct (map order_id (orders st))" and x: "x \<in> set (orders st)"
    and off: "open_account_id x \<noteq> Some acc"
  shows "closed_row_all acc body st x = x"
proof -
  have "order_id x \<notin> order_id ` set (orders_to_discount acc body st)"
  proof
    assume "order_id x \<in> order_id ` set (orders_to_discount acc body st)"
    then obtain o' where o: "o' \<in> set (orders_to_discount acc body st)" "order_id x = order_id o'"
      by auto
    then have "o' \<in> set (orders st)" "open_account_id o' = Some acc"
      using orders_to_discount_props(2)[OF pk, of acc body] by auto
    then show False using same_id_same_row[OF pk x _ o(2)] off by auto
  qed
  then show ?thesis using off
    by (simp add: closed_row_all_def settle_order_def walked_row_other)
qed

lemma closed_row_all_on_tab:
  assumes pk: "distinct (map order_id (orders st))"
    and i: "i < length (orders_to_discount acc body st)"
  shows "closed_row_all acc body st (orders_to_discount acc body st ! i) =
     (let x = orders_to_discount acc body st ! i;
          a = allocation (the (discount body)) (map order_total (orders_to_discount acc body st)) ! i;
          y = settle_order acc (the (paymentMethod body))
               (if the (paymentMethod body) = ''mercadopago'' then mercadoPagoAccountId body else None)
               (account_name (the (find (\<lambda>a. account_id a = acc) (open_accounts st)))) x
      in if 0 < a
         then y\<lparr>order_total := order_total x - a,
                order_discount := Some ((case order_discount x of None \<Rightarrow> 0 | Some d \<Rightarrow> d) + a),
                discount_reason := Some
                  ((case discount_reason x of None \<Rightarrow> []
                    | Some r \<Rightarrow> if trim r = [] then [] else trim r @ '' '')
                   @ ''Descuento de la cuenta: '' @ trim (the (discountReason body)))\<rparr>
         else y)"
  unfolding closed_row_all_def Let_def
  by (rule walked_row_allocation[OF orders_to_discount_props(1)[OF pk] i])
     (simp add: settle_order_keeps)

lemmas close_all_defs = close_account_all_orders_def falsy_def discount_requested_def
  settle_orders_def settle_order_def newest_first_def trim_def is_space_def Let_def

lemma close_account_all_orders_frame:
  assumes ok: "close_account_all_orders acc body st = Inr st'"
    and pk: "distinct (map order_id (orders st))"
  shows "length (orders st') = length (orders st)"
    and "k < length (orders st) \<Longrightarrow>
        order_id (orders st' ! k) = order_id (orders st ! k) \<and>
        (if open_account_id (orders st ! k) = Some acc
         then payment_method (orders st' ! k) = the (paymentMethod body)
              \<and> open_account_id (orders st' ! k) = None
              \<and> closed_open_account_id (orders st' ! k) = Some acc
         else orders st' ! k = orders st ! k) \<and>
        (\<exists>a. 0 \<le> a \<and> a \<le> max 0 (order_total (orders st ! k))
           \<and> order_total (orders st' ! k) = order_total (orders st ! k) - a
           \<and> (a = 0 \<longrightarrow> order_discount (orders st' ! k) = order_discount (orders st ! k)
                        \<and> discount_reason (orders st' ! k) = discount_reason (orders st ! k))
           \<and> (0 < a \<longrightarrow> discount_requested body \<and> open_account_id (orders st ! k) = Some acc))"
proof -
  note eq = close_account_all_orders_rows[OF ok]
  show "length (orders st') = length (orders st)" by (simp add: eq)
  assume k: "k < length (orders st)"
  let ?x = "orders st ! k"
  let ?os = "orders_to_discount acc body st"
  have x: "?x \<in> set (orders st)" using k by simp
  have nth: "orders st' ! k = closed_row_all acc body st ?x" using k by (simp add: eq)
  have idk: "order_id (orders st' ! k) = order_id ?x"
    by (simp add: nth closed_row_all_def walked_row_id settle_order_keeps)
  show "order_id (orders st' ! k) = order_id (orders st ! k) \<and>
        (if open_account_id (orders st ! k) = Some acc
         then payment_method (orders st' ! k) = the (paymentMethod body)
              \<and> open_account_id (orders st' ! k) = None
              \<and> closed_open_account_id (orders st' ! k) = Some acc
         else orders st' ! k = orders st ! k) \<and>
        (\<exists>a. 0 \<le> a \<and> a \<le> max 0 (order_total (orders st ! k))
           \<and> order_total (orders st' ! k) = order_total (orders st ! k) - a
           \<and> (a = 0 \<longrightarrow> order_discount (orders st' ! k) = order_discount (orders st ! k)
                        \<and> discount_reason (orders st' ! k) = discount_reason (orders st ! k))
           \<and> (0 < a \<longrightarrow> discount_requested body \<and> open_account_id (orders st ! k) = Some acc))"
  proof (cases "?x \<in> set ?os")
    case False
    have "order_id ?x \<notin> order_id ` set ?os"
    proof
      assume "order_id ?x \<in> order_id ` set ?os"
      then obtain o' where o: "o' \<in> set ?os" "order_id ?x = order_id o'" by auto
      then have "o' \<in> set (orders st)" using orders_to_discount_props(2)[OF pk, of acc body] by auto
      then have "?x = o'" using same_id_same_row[OF pk x _ o(2)] by simp
      then show False using False o(1) by simp
    qed
    then have row: "orders st' ! k = settle_order acc (the (paymentMethod body))
          (if the (paymentMethod body) = ''mercadopago'' then mercadoPagoAccountId body else None)
          (account_name (the (find (\<lambda>a. account_id a = acc) (open_accounts st)))) ?x"
      by (simp add: nth closed_row_all_def walked_row_other settle_order_keeps)
    have keep: "order_total (orders st' ! k) = order_total ?x - 0
         \<and> order_discount (orders st' ! k) = order_discount ?x
         \<and> discount_reason (orders st' ! k) = discount_reason ?x"
      by (simp add: row settle_order_keeps)
    have pay: "if open_account_id ?x = Some acc
         then payment_method (orders st' ! k) = the (paymentMethod body)
              \<and> open_account_id (orders st' ! k) = None
              \<and> closed_open_account_id (orders st' ! k) = Some acc
         else orders st' ! k = ?x"
      by (simp add: row settle_order_def)
    have "0 \<le> (0::rat) \<and> (0::rat) \<le> max 0 (order_total ?x)" by simp
    then show ?thesis using idk keep pay by blast
  next
    case True
    then obtain i where i: "i < length ?os" "?os ! i = ?x" by (auto simp add: in_set_conv_nth)
    have tab: "open_account_id ?x = Some acc" and dr: "discount_requested body"
      using True orders_to_discount_props(2)[OF pk, of acc body]
      by (auto simp add: orders_to_discount_def split: if_splits)
    let ?a = "allocation (the (discount body)) (map order_total ?os) ! i"
    have b: "0 \<le> ?a \<and> ?a \<le> max 0 (order_total ?x)"
      using allocation_bounds[of i "map order_total ?os" "the (discount body)"] i by simp
    note row = closed_row_all_on_tab[OF pk i(1), unfolded i(2) Let_def]
    have tot: "order_total (orders st' ! k) = order_total ?x - ?a"
      using b by (simp add: nth row settle_order_keeps)
    have keep: "?a = 0 \<longrightarrow> order_discount (orders st' ! k) = order_discount ?x
                        \<and> discount_reason (orders st' ! k) = discount_reason ?x"
      by (simp add: nth row settle_order_keeps)
    have pay: "payment_method (orders st' ! k) = the (paymentMethod body)
              \<and> open_account_id (orders st' ! k) = None
              \<and> closed_open_account_id (orders st' ! k) = Some acc"
      using tab by (simp add: nth row settle_order_def)
    show ?thesis using idk tab dr b tot keep pay by auto
  qed
qed

lemma close_account_all_orders_any_discount:
  assumes "close_account_all_orders acc body st = Inr st'"
  shows "\<exists>st''. close_account_all_orders acc (body\<lparr>discount := Some d\<rparr>) st = Inr st''"
  using assms
  by (auto simp add: close_account_all_orders_def Let_def split: if_splits option.splits)

lemma distribution_refines_allocation:
  assumes "close_account_all_orders acc body st = Inr st'"
    and "distinct (map order_id (orders st))" and "discount_requested body"
  shows "let os = newest_first (filter (\<lambda>x. open_account_id x = Some acc) (orders st));
             applied = allocation (the (discount body)) (map order_total os)
         in (\<forall>k < length (orders st). open_account_id (orders st ! k) = Some acc \<longrightarrow>
               (\<exists>i < length os. os ! i = orders st ! k \<and>
                  order_total (orders st' ! k) = order_total (orders st ! k) - applied ! i \<and>
                  (if 0 < applied ! i
                   then order_discount (orders st' ! k) =
                          Some ((case order_discount (orders st ! k) of None \<Rightarrow> 0 | Some e \<Rightarrow> e) + applied ! i)
                        \<and> discount_reason (orders st' ! k) =
                          Some ((case discount_reason (orders st ! k) of None \<Rightarrow> []
                                 | Some r \<Rightarrow> if trim r = [] then [] else trim r @ '' '')
                                @ ''Descuento de la cuenta: '' @ trim (the (discountReason body)))
                   else order_discount (orders st' ! k) = order_discount (orders st ! k)
                        \<and> discount_reason (orders st' ! k) = discount_reason (orders st ! k))))
          \<and> (\<forall>i j. i < j \<and> j < length os \<longrightarrow> created_at (os ! j) \<le> created_at (os ! i))
          \<and> (\<forall>i j. i < j \<and> j < length os \<and> 0 < applied ! j \<longrightarrow> applied ! i = max 0 (order_total (os ! i)))
          \<and> (\<forall>i < length os. 0 \<le> applied ! i \<and> applied ! i \<le> max 0 (order_total (os ! i)))
          \<and> sum_list applied = min (the (discount body)) (\<Sum>x\<leftarrow>os. max 0 (order_total x))
          \<and> (\<forall>d. \<exists>st''. close_account_all_orders acc (body\<lparr>discount := Some d\<rparr>) st = Inr st'')"
proof -
  let ?os = "newest_first (filter (\<lambda>x. open_account_id x = Some acc) (orders st))"
  let ?ap = "allocation (the (discount body)) (map order_total ?os)"
  have os: "orders_to_discount acc body st = ?os" using assms(3) by (simp add: orders_to_discount_def)
  note eq = close_account_all_orders_rows[OF assms(1)]
  have rows: "\<exists>i < length ?os. ?os ! i = orders st ! k \<and>
                  order_total (orders st' ! k) = order_total (orders st ! k) - ?ap ! i \<and>
                  (if 0 < ?ap ! i
                   then order_discount (orders st' ! k) =
                          Some ((case order_discount (orders st ! k) of None \<Rightarrow> 0 | Some e \<Rightarrow> e) + ?ap ! i)
                        \<and> discount_reason (orders st' ! k) =
                          Some ((case discount_reason (orders st ! k) of None \<Rightarrow> []
                                 | Some r \<Rightarrow> if trim r = [] then [] else trim r @ '' '')
                                @ ''Descuento de la cuenta: '' @ trim (the (discountReason body)))
                   else order_discount (orders st' ! k) = order_discount (orders st ! k)
                        \<and> discount_reason (orders st' ! k) = discount_reason (orders st ! k))"
    if k: "k < length (orders st)" and tab: "open_account_id (orders st ! k) = Some acc" for k
  proof -
    let ?x = "orders st ! k"
    have "?x \<in> set ?os" using k tab by (simp add: newest_first_set)
    then obtain i where i: "i < length ?os" "?os ! i = ?x" by (auto simp add: in_set_conv_nth)
    have nth: "orders st' ! k = closed_row_all acc body st ?x" using k by (simp add: eq)
    have i': "i < length (orders_to_discount acc body st)" using i(1) os by simp
    note row = closed_row_all_on_tab[OF assms(2) i', unfolded os i(2) Let_def]
    have "order_total (orders st' ! k) = order_total ?x - ?ap ! i"
      using allocation_bounds[of i "map order_total ?os" "the (discount body)"] i
      by (simp add: nth row settle_order_keeps)
    moreover have "if 0 < ?ap ! i
                   then order_discount (orders st' ! k) =
                          Some ((case order_discount ?x of None \<Rightarrow> 0 | Some e \<Rightarrow> e) + ?ap ! i)
                        \<and> discount_reason (orders st' ! k) =
                          Some ((case discount_reason ?x of None \<Rightarrow> []
                                 | Some r \<Rightarrow> if trim r = [] then [] else trim r @ '' '')
                                @ ''Descuento de la cuenta: '' @ trim (the (discountReason body)))
                   else order_discount (orders st' ! k) = order_discount ?x
                        \<and> discount_reason (orders st' ! k) = discount_reason ?x"
      by (simp add: nth row settle_order_keeps)
    ultimately show ?thesis using i by blast
  qed
  have sorted: "\<forall>i j. i < j \<and> j < length ?os \<longrightarrow> created_at (?os ! j) \<le> created_at (?os ! i)"
    using newest_first_sorted by blast
  have first: "\<forall>i j. i < j \<and> j < length ?os \<and> 0 < ?ap ! j \<longrightarrow> ?ap ! i = max 0 (order_total (?os ! i))"
  proof (intro allI impI)
    fix i j assume a: "i < j \<and> j < length ?os \<and> 0 < ?ap ! j"
    then have "?ap ! i = max 0 (map order_total ?os ! i)"
      by (intro allocation_newest_first[of i j]) simp_all
    then show "?ap ! i = max 0 (order_total (?os ! i))" using a by simp
  qed
  have bounds: "\<forall>i < length ?os. 0 \<le> ?ap ! i \<and> ?ap ! i \<le> max 0 (order_total (?os ! i))"
    using allocation_bounds[of _ "map order_total ?os" "the (discount body)"] by simp
  have dpos: "0 < the (discount body)"
    using assms(3) by (cases "discount body") (simp_all add: discount_requested_def)
  have sum: "sum_list ?ap = min (the (discount body)) (\<Sum>x\<leftarrow>?os. max 0 (order_total x))"
    using dpos by (simp add: allocation_sum comp_def)
  have any: "\<forall>d. \<exists>st''. close_account_all_orders acc (body\<lparr>discount := Some d\<rparr>) st = Inr st''"
    using assms(1) by (blast intro: close_account_all_orders_any_discount)
  show ?thesis unfolding Let_def using rows sorted first bounds sum any by blast
qed

lemma tab_closed_all:
  "close_account_all_orders ''t1'' (close_with d) tab_store
     = Inr (projr (close_account_all_orders ''t1'' (close_with d) tab_store))"
  by (simp add: close_account_all_orders_def falsy_def tab_store_def close_with_def Let_def)

lemma tab_newest_first:
  "newest_first (filter (\<lambda>x. open_account_id x = Some ''t1'') (orders tab_store)) = orders tab_store"
  by (simp add: newest_first_def tab_store_def tab_order_def)

lemma pick_index:
  assumes "\<exists>i < length os. os ! i = x \<and> P i" and "distinct os" and "k < length os" and "os ! k = x"
  shows "P k"
  using assms by (auto simp add: nth_eq_iff_index_eq)

subsection \<open>Claims about closing an account\<close>

text \<open>
  C10 (as amended). Closing an account, when order ids are unique, keeps the rows of the
  orders table and their ids. The orders of the account get the payment method and lose
  their link to the account, and all other orders are unchanged. Totals, discounts and
  reasons change only on orders of the account, and only when a positive discount with a
  reason that is not blank (so not empty) was sent. The handler of
  src/routes/openAccounts.js changes one order at most, the most recent order of the
  account: its new total is \<open>max 0 (total - discount)\<close> and so not negative, and every
  other order keeps its total, discount and reason. The handler of src/unnamed/part_003 may
  change several orders: the total of each order goes down by an amount between 0 and
  \<open>max 0 total\<close>, so that a total that was not negative stays so, and an order whose
  amount is 0 keeps its total, discount and reason.
\<close>

theorem close_account_frame:
  assumes "distinct (map order_id (orders st))"
  shows "(close_account acc body st = Inr st' \<longrightarrow>
     length (orders st') = length (orders st) \<and>
       (\<forall>i < length (orders st).
          order_id (orders st' ! i) = order_id (orders st ! i) \<and>
          (if discount_requested body \<and> last_order_of acc (orders st) = Some (orders st ! i)
           then order_total (orders st' ! i) = max 0 (order_total (orders st ! i) - the (discount body))
                \<and> 0 \<le> order_total (orders st' ! i)
           else order_total (orders st' ! i) = order_total (orders st ! i)
                \<and> order_discount (orders st' ! i) = order_discount (orders st ! i)
                \<and> discount_reason (orders st' ! i) = discount_reason (orders st ! i)) \<and>
          (if open_account_id (orders st ! i) = Some acc
           then payment_method (orders st' ! i) = the (paymentMethod body)
                \<and> open_account_id (orders st' ! i) = None
                \<and> closed_open_account_id (orders st' ! i) = Some acc
           else orders st' ! i = orders st ! i)) \<and>
       (\<forall>i j. i < length (orders st) \<and> j < length (orders st)
            \<and> last_order_of acc (orders st) = Some (orders st ! i)
            \<and> last_order_of acc (orders st) = Some (orders st ! j) \<longrightarrow> i = j) \<and>
       (\<forall>l. last_order_of acc (orders st) = Some l \<longrightarrow>
            l \<in> set (orders st) \<and> open_account_id l = Some acc \<and>
            (\<forall>x \<in> set (orders st). open_account_id x = Some acc \<longrightarrow> created_at x \<le> created_at l)) \<and>
       (discount_requested body \<longrightarrow>
            (\<exists>d r. discount body = Some d \<and> 0 < d \<and> discountReason body = Some r \<and> r \<noteq> [])))
   \<and> (close_account_all_orders acc body st = Inr st2 \<longrightarrow>
     length (orders st2) = length (orders st) \<and>
     (\<forall>k < length (orders st).
        order_id (orders st2 ! k) = order_id (orders st ! k) \<and>
        (if open_account_id (orders st ! k) = Some acc
         then payment_method (orders st2 ! k) = the (paymentMethod body)
              \<and> open_account_id (orders st2 ! k) = None
              \<and> closed_open_account_id (orders st2 ! k) = Some acc
         else orders st2 ! k = orders st ! k) \<and>
        (0 \<le> order_total (orders st ! k) \<longrightarrow> 0 \<le> order_total (orders st2 ! k)) \<and>
        (\<exists>a. 0 \<le> a \<and> a \<le> max 0 (order_total (orders st ! k))
           \<and> order_total (orders st2 ! k) = order_total (orders st ! k) - a
           \<and> (a = 0 \<longrightarrow> order_discount (orders st2 ! k) = order_discount (orders st ! k)
                        \<and> discount_reason (orders st2 ! k) = discount_reason (orders st ! k))
           \<and> (0 < a \<longrightarrow> discount_requested body \<and> open_account_id (orders st ! k) = Some acc))) \<and>
     (discount_requested body \<longrightarrow>
          (\<exists>d r. discount body = Some d \<and> 0 < d \<and> discountReason body = Some r \<and> r \<noteq> [])))"
proof (rule conjI; rule impI)
  assume ok: "close_account acc body st = Inr st'"
  show "length (orders st') = length (orders st) \<and>
       (\<forall>i < length (orders st).
          order_id (orders st' ! i) = order_id (orders st ! i) \<and>
          (if discount_requested body \<and> last_order_of acc (orders st) = Some (orders st ! i)
           then order_total (orders st' ! i) = max 0 (order_total (orders st ! i) - the (discount body))
                \<and> 0 \<le> order_total (orders st' ! i)
           else order_total (orders st' ! i) = order_total (orders st ! i)
                \<and> order_discount (orders st' ! i) = order_discount (orders st ! i)
                \<and> discount_reason (orders st' ! i) = discount_reason (orders st ! i)) \<and>
          (if open_account_id (orders st ! i) = Some acc
           then payment_method (orders st' ! i) = the (paymentMethod body)
                \<and> open_account_id (orders st' ! i) = None
                \<and> closed_open_account_id (orders st' ! i) = Some acc
           else orders st' ! i = orders st ! i)) \<and>
       (\<forall>i j. i < length (orders st) \<and> j < length (orders st)
            \<and> last_order_of acc (orders st) = Some (orders st ! i)
            \<and> last_order_of acc (orders st) = Some (orders st ! j) \<longrightarrow> i = j) \<and>
       (\<forall>l. last_order_of acc (orders st) = Some l \<longrightarrow>
            l \<in> set (orders st) \<and> open_account_id l = Some acc \<and>
            (\<forall>x \<in> set (orders st). open_account_id x = Some acc \<longrightarrow> created_at x \<le> created_at l)) \<and>
       (discount_requested body \<longrightarrow>
            (\<exists>d r. discount body = Some d \<and> 0 < d \<and> discountReason body = Some r \<and> r \<noteq> []))"
    using ok assms by (rule close_account_last_order_frame)
next
  assume ok: "close_account_all_orders acc body st = Inr st2"
  note fr = close_account_all_orders_frame[OF ok assms]
  have "0 \<le> order_total (orders st ! k) \<longrightarrow> 0 \<le> order_total (orders st2 ! k)"
    if "k < length (orders st)" for k
    using fr(2)[OF that] by auto
  moreover have "discount_requested body \<longrightarrow>
          (\<exists>d r. discount body = Some d \<and> 0 < d \<and> discountReason body = Some r \<and> r \<noteq> [])"
    by (cases "discount body"; cases "discountReason body")
       (simp_all add: discount_requested_def falsy_def)
  ultimately show "length (orders st2) = length (orders st) \<and>
     (\<forall>k < length (orders st).
        order_id (orders st2 ! k) = order_id (orders st ! k) \<and>
        (if open_account_id (orders st ! k) = Some acc
         then payment_method (orders st2 ! k) = the (paymentMethod body)
              \<and> open_account_id (orders st2 ! k) = None
              \<and> closed_open_account_id (orders st2 ! k) = Some acc
         else orders st2 ! k = orders st ! k) \<and>
        (0 \<le> order_total (orders st ! k) \<longrightarrow> 0 \<le> order_total (orders st2 ! k)) \<and>
        (\<exists>a. 0 \<le> a \<and> a \<le> max 0 (order_total (orders st ! k))
           \<and> order_total (orders st2 ! k) = order_total (orders st ! k) - a
           \<and> (a = 0 \<longrightarrow> order_discount (orders st2 ! k) = order_discount (orders st ! k)
                        \<and> discount_reason (orders st2 ! k) = discount_reason (orders st ! k))
           \<and> (0 < a \<longrightarrow> discount_requested body \<and> open_account_id (orders st ! k) = Some acc))) \<and>
     (discount_requested body \<longrightarrow>
          (\<exists>d r. discount body = Some d \<and> 0 < d \<and> discountReason body = Some r \<and> r \<noteq> []))"
    using fr by blast
qed

theorem close_account_frame_witness:
  "length (orders (projr (close_account ''t1'' (close_with 100) tab_store))) = 3
   \<and> order_total (orders (projr (close_account ''t1'' (close_with 100) tab_store)) ! 0) = 0
   \<and> order_total (orders (projr (close_account ''t1'' (close_with 100) tab_store)) ! 1) = 20
   \<and> order_discount (orders (projr (close_account ''t1'' (close_with 100) tab_store)) ! 1) = None
   \<and> payment_method (orders (projr (close_account ''t1'' (close_with 100) tab_store)) ! 1) = ''efectivo''
   \<and> open_account_id (orders (projr (close_account ''t1'' (close_with 100) tab_store)) ! 1) = None
   \<and> length (orders (projr (close_account_all_orders ''t1'' (close_with 45) tab_store))) = 3
   \<and> payment_method (orders (projr (close_account_all_orders ''t1'' (close_with 45) tab_store)) ! 2) = ''efectivo''
   \<and> open_account_id (orders (projr (close_account_all_orders ''t1'' (close_with 45) tab_store)) ! 2) = None
   \<and> 0 \<le> order_total (orders (projr (close_account_all_orders ''t1'' (close_with 45) tab_store)) ! 2)"
proof -
  let ?st' = "projr (close_account ''t1'' (close_with 100) tab_store)"
  let ?st2 = "projr (close_account_all_orders ''t1'' (close_with 45) tab_store)"
  have dr: "discount_requested (close_with 100)" by (rule tab_facts(2)) simp
  note both = close_account_frame[OF tab_facts(1)]
  note t = both[where acc = "''t1''" and body = "close_with 100", THEN conjunct1, rule_format, OF tab_closed]
  note u = both[where acc = "''t1''" and body = "close_with 45", THEN conjunct2, rule_format, OF tab_closed_all]
  have vals: "order_total (orders tab_store ! 0) = 30" "the (discount (close_with 100)) = 100"
    "order_total (orders tab_store ! 1) = 20" "order_discount (orders tab_store ! 1) = None"
    "open_account_id (orders tab_store ! 1) = Some ''t1''"
    "the (paymentMethod (close_with 100)) = ''efectivo''"
    "last_order_of ''t1'' (orders tab_store) \<noteq> Some (orders tab_store ! 1)"
    "open_account_id (orders tab_store ! 2) = Some ''t1''"
    "the (paymentMethod (close_with 45)) = ''efectivo''"
    "order_total (orders tab_store ! 2) = 10"
    by (simp_all add: tab_store_def tab_order_def close_with_def last_order_of_def)
  have len: "length (orders ?st') = 3" using t by (simp add: tab_facts(4))
  have i0: "order_total (orders ?st' ! 0) = max 0 (order_total (orders tab_store ! 0) - the (discount (close_with 100)))"
    using t dr tab_facts(3) by (simp add: tab_facts(4))
  have i1: "order_total (orders ?st' ! 1) = order_total (orders tab_store ! 1)
      \<and> order_discount (orders ?st' ! 1) = order_discount (orders tab_store ! 1)
      \<and> payment_method (orders ?st' ! 1) = the (paymentMethod (close_with 100))
      \<and> open_account_id (orders ?st' ! 1) = None"
    using t vals(5,7) by (simp add: tab_facts(4))
  have len2: "length (orders ?st2) = 3" using u by (simp add: tab_facts(4))
  have "2 < length (orders tab_store)" by (simp add: tab_facts(4))
  then have j2: "payment_method (orders ?st2 ! 2) = the (paymentMethod (close_with 45))
      \<and> open_account_id (orders ?st2 ! 2) = None
      \<and> 0 \<le> order_total (orders ?st2 ! 2)"
    using u vals(8,10) by simp
  show ?thesis using len i0 i1 len2 j2 vals by simp
qed

text \<open>
  The claim as written, at most one order changed, fails on the handler of
  src/unnamed/part_003: with totals 30, 20 and 10 and no discounts, a discount of 45 changes
  the total and the discount of two orders.
\<close>

theorem single_order_counterexample:
  "map order_total (orders tab_store) = [30, 20, 10]
   \<and> map order_discount (orders tab_store) = [None, None, None]
   \<and> totals_after (close_account_all_orders ''t1'' (close_with 45) tab_store) = Inr [0, 5, 10]
   \<and> discounts_after (close_account_all_orders ''t1'' (close_with 45) tab_store) = Inr [Some 30, Some 15, None]"
  by (simp add: close_all_defs tab_store_def tab_order_def close_with_def totals_after_def
      discounts_after_def)

text \<open>
  C1 (as amended). When an account is closed with a positive discount and a non-blank
  reason and order ids are unique, the handler of src/unnamed/part_003 distributes the
  discount over the orders of the account from the newest to the oldest, as the allocation
  of section 4.4 says: each order's total goes down by the amount applied to it, which lies
  between 0 and \<open>max 0 total\<close>; an order with a positive amount has its discount
  increased by that amount and the note \<open>Descuento de la cuenta: reason\<close> appended to its
  reason, an order with amount 0 keeps both; an order gets an amount only after every newer
  order got its whole \<open>max 0 total\<close>; the amounts add up to the smaller of the discount and
  the sum of the \<open>max 0 total\<close>. The handler of src/routes/openAccounts.js gives the whole
  discount to the most recent order only: its total becomes \<open>max 0 (total - discount)\<close>,
  its discount grows by the full amount, the note is appended, and no other order changes
  its total, discount or reason. Whatever the amount, neither handler rejects the request
  for it.
\<close>

theorem discount_distribution:
  assumes "distinct (map order_id (orders st))" and "discount_requested body"
  shows "(close_account_all_orders acc body st = Inr st' \<longrightarrow>
     (let os = newest_first (filter (\<lambda>x. open_account_id x = Some acc) (orders st));
             applied = allocation (the (discount body)) (map order_total os)
         in (\<forall>k < length (orders st). open_account_id (orders st ! k) = Some acc \<longrightarrow>
               (\<exists>i < length os. os ! i = orders st ! k \<and>
                  order_total (orders st' ! k) = order_total (orders st ! k) - applied ! i \<and>
                  (if 0 < applied ! i
                   then order_discount (orders st' ! k) =
                          Some ((case order_discount (orders st ! k) of None \<Rightarrow> 0 | Some e \<Rightarrow> e) + applied ! i)
                        \<and> discount_reason (orders st' ! k) =
                          Some ((case discount_reason (orders st ! k) of None \<Rightarrow> []
                                 | Some r \<Rightarrow> if trim r = [] then [] else trim r @ '' '')
                                @ ''Descuento de la cuenta: '' @ trim (the (discountReason body)))
                   else order_discount (orders st' ! k) = order_discount (orders st ! k)
                        \<and> discount_reason (orders st' ! k) = discount_reason (orders st ! k))))
          \<and> (\<forall>i j. i < j \<and> j < length os \<longrightarrow> created_at (os ! j) \<le> created_at (os ! i))
          \<and> (\<forall>i j. i < j \<and> j < length os \<and> 0 < applied ! j \<longrightarrow> applied ! i = max 0 (order_total (os ! i)))
          \<and> (\<forall>i < length os. 0 \<le> applied ! i \<and> applied ! i \<le> max 0 (order_total (os ! i)))
          \<and> sum_list applied = min (the (discount body)) (\<Sum>x\<leftarrow>os. max 0 (order_total x))
          \<and> (\<forall>d. \<exists>st''. close_account_all_orders acc (body\<lparr>discount := Some d\<rparr>) st = Inr st'')))
   \<and> (close_account acc body st = Inr st2 \<longrightarrow>
     (\<forall>i < length (orders st). last_order_of acc (orders st) = Some (orders st ! i) \<longrightarrow>
        order_total (orders st2 ! i) = max 0 (order_total (orders st ! i) - the (discount body))
         \<and> order_discount (orders st2 ! i) =
             Some ((case order_discount (orders st ! i) of None \<Rightarrow> 0 | Some e \<Rightarrow> e) + the (discount body))
         \<and> discount_reason (orders st2 ! i) =
             Some ((case discount_reason (orders st ! i) of None \<Rightarrow> []
                    | Some r \<Rightarrow> if trim r = [] then [] else trim r @ '' '')
                   @ ''Descuento de la cuenta: '' @ trim (the (discountReason body)))
         \<and> (\<forall>j < length (orders st). j \<noteq> i \<longrightarrow>
               order_total (orders st2 ! j) = order_total (orders st ! j) \<and>
               order_discount (orders st2 ! j) = order_discount (orders st ! j) \<and>
               discount_reason (orders st2 ! j) = discount_reason (orders st ! j))
         \<and> (\<forall>d. \<exists>st2'. close_account acc (body\<lparr>discount := Some d\<rparr>) st = Inr st2')))"
proof (rule conjI; rule impI)
  assume ok: "close_account_all_orders acc body st = Inr st'"
  show "let os = newest_first (filter (\<lambda>x. open_account_id x = Some acc) (orders st));
             applied = allocation (the (discount body)) (map order_total os)
         in (\<forall>k < length (orders st). open_account_id (orders st ! k) = Some acc \<longrightarrow>
               (\<exists>i < length os. os ! i = orders st ! k \<and>
                  order_total (orders st' ! k) = order_total (orders st ! k) - applied ! i \<and>
                  (if 0 < applied ! i
                   then order_discount (orders st' ! k) =
                          Some ((case order_discount (orders st ! k) of None \<Rightarrow> 0 | Some e \<Rightarrow> e) + applied ! i)
                        \<and> discount_reason (orders st' ! k) =
                          Some ((case discount_reason (orders st ! k) of None \<Rightarrow> []
                                 | Some r \<Rightarrow> if trim r = [] then [] else trim r @ '' '')
                                @ ''Descuento de la cuenta: '' @ trim (the (discountReason body)))
                   else order_discount (orders st' ! k) = order_discount (orders st ! k)
                        \<and> discount_reason (orders st' ! k) = discount_reason (orders st ! k))))
          \<and> (\<forall>i j. i < j \<and> j < length os \<longrightarrow> created_at (os ! j) \<le> created_at (os ! i))
          \<and> (\<forall>i j. i < j \<and> j < length os \<and> 0 < applied ! j \<longrightarrow> applied ! i = max 0 (order_total (os ! i)))
          \<and> (\<forall>i < length os. 0 \<le> applied ! i \<and> applied ! i \<le> max 0 (order_total (os ! i)))
          \<and> sum_list applied = min (the (discount body)) (\<Sum>x\<leftarrow>os. max 0 (order_total x))
          \<and> (\<forall>d. \<exists>st''. close_account_all_orders acc (body\<lparr>discount := Some d\<rparr>) st = Inr st'')"
    using ok assms by (rule distribution_refines_allocation)
next
  assume ok: "close_account acc body st = Inr st2"
  show "\<forall>i < length (orders st). last_order_of acc (orders st) = Some (orders st ! i) \<longrightarrow>
        order_total (orders st2 ! i) = max 0 (order_total (orders st ! i) - the (discount body))
         \<and> order_discount (orders st2 ! i) =
             Some ((case order_discount (orders st ! i) of None \<Rightarrow> 0 | Some e \<Rightarrow> e) + the (discount body))
         \<and> discount_reason (orders st2 ! i) =
             Some ((case discount_reason (orders st ! i) of None \<Rightarrow> []
                    | Some r \<Rightarrow> if trim r = [] then [] else trim r @ '' '')
                   @ ''Descuento de la cuenta: '' @ trim (the (discountReason body)))
         \<and> (\<forall>j < length (orders st). j \<noteq> i \<longrightarrow>
               order_total (orders st2 ! j) = order_total (orders st ! j) \<and>
               order_discount (orders st2 ! j) = order_discount (orders st ! j) \<and>
               discount_reason (orders st2 ! j) = discount_reason (orders st ! j))
         \<and> (\<forall>d. \<exists>st2'. close_account acc (body\<lparr>discount := Some d\<rparr>) st = Inr st2')"
    using close_account_last_order_discount[OF ok assms] by blast
qed

theorem discount_distribution_witness:
  "allocation 45 [30, 20, 10] = [30, 15, 0]
   \<and> order_total (orders (projr (close_account_all_orders ''t1'' (close_with 45) tab_store)) ! Suc 0) = 5
   \<and> order_discount (orders (projr (close_account_all_orders ''t1'' (close_with 45) tab_store)) ! Suc 0) = Some 15
   \<and> order_total (orders (projr (close_account_all_orders ''t1'' (close_with 45) tab_store)) ! 2) = 10
   \<and> order_discount (orders (projr (close_account_all_orders ''t1'' (close_with 45) tab_store)) ! 2) = None
   \<and> order_total (orders (projr (close_account ''t1'' (close_with 45) tab_store)) ! 0) = 0
   \<and> order_discount (orders (projr (close_account ''t1'' (close_with 45) tab_store)) ! 0) = Some 45
   \<and> discount_reason (orders (projr (close_account ''t1'' (close_with 45) tab_store)) ! 0)
       = Some ''Descuento de la cuenta: promo''
   \<and> order_total (orders (projr (close_account ''t1'' (close_with 45) tab_store)) ! 1) = 20
   \<and> order_total (orders (projr (close_account ''t1'' (close_with 45) tab_store)) ! 2) = 10"
proof -
  let ?st' = "projr (close_account_all_orders ''t1'' (close_with 45) tab_store)"
  let ?st2 = "projr (close_account ''t1'' (close_with 45) tab_store)"
  let ?os = "orders tab_store"
  have dr: "discount_requested (close_with 45)" by (rule tab_facts(2)) simp
  have al: "allocation (the (discount (close_with 45))) (map order_total ?os) = [30, 15, 0]"
    by (simp add: tab_store_def tab_order_def close_with_def)
  note both = discount_distribution[OF tab_facts(1) dr]
  note t = both[where acc = "''t1''", THEN conjunct1, rule_format, OF tab_closed_all,
      unfolded Let_def tab_newest_first al]
  note rows = t[THEN conjunct1, rule_format]
  have i0: "0 < length ?os" by (simp add: tab_facts(4))
  note l = both[where acc = "''t1''", THEN conjunct2, rule_format, OF tab_closed i0 tab_facts(3)]
  have dist: "distinct ?os" using tab_facts(1) by (simp add: distinct_map)
  have k1: "Suc 0 < length ?os" "open_account_id (?os ! Suc 0) = Some ''t1''"
    and k2: "2 < length ?os" "open_account_id (?os ! 2) = Some ''t1''"
    by (simp_all add: tab_store_def tab_order_def)
  have vals: "order_total (?os ! Suc 0) = 20" "order_discount (?os ! Suc 0) = None"
    "order_total (?os ! 2) = 10" "order_discount (?os ! 2) = None"
    "order_total (?os ! 0) = 30" "order_discount (?os ! 0) = None"
    "discount_reason (?os ! 0) = None" "the (discount (close_with 45)) = 45"
    "trim (the (discountReason (close_with 45))) = ''promo''"
    "order_total (?os ! 1) = 20"
    by (simp_all add: tab_store_def tab_order_def close_with_def trim_def is_space_def)
  have r1: "order_total (orders ?st' ! Suc 0) = 5 \<and> order_discount (orders ?st' ! Suc 0) = Some 15"
    using pick_index[OF rows[OF k1] dist k1(1) refl] vals by simp
  have r2: "order_total (orders ?st' ! 2) = 10 \<and> order_discount (orders ?st' ! 2) = None"
    using pick_index[OF rows[OF k2] dist k2(1) refl] vals by simp
  have "order_total (orders ?st2 ! 1) = order_total (?os ! 1)"
    and "order_total (orders ?st2 ! 2) = order_total (?os ! 2)"
    using l by (simp_all add: tab_facts(4))
  then have r3: "order_total (orders ?st2 ! 0) = 0
      \<and> order_discount (orders ?st2 ! 0) = Some 45
      \<and> discount_reason (orders ?st2 ! 0) = Some ''Descuento de la cuenta: promo''
      \<and> order_total (orders ?st2 ! 1) = 20
      \<and> order_total (orders ?st2 ! 2) = 10"
    using l vals by simp
  have "allocation 45 [30, 20, 10] = [30, 15, 0::rat]" by simp
  then show ?thesis using r1 r2 r3 by simp
qed

text \<open>
  The claim as written fails on its own example under both handlers. With totals 30, 20 and
  10, newest first, a discount of 45 leaves 0, 5 and 10 under the walk over all orders
  (30 and 15 applied; the reductions 30, 20 and 5 of the claim add up to 55), and 0, 20 and
  10 under the handler that discounts the most recent order only. A discount of 100 leaves
  every total at 0 under the walk, as the claim says.
\<close>

theorem discount_allocation_counterexample:
  "map order_total (orders tab_store) = [30, 20, 10]
   \<and> map created_at (orders tab_store) = [3, 2, 1]
   \<and> totals_after (close_account_all_orders ''t1'' (close_with 45) tab_store) = Inr [0, 5, 10]
   \<and> discounts_after (close_account_all_orders ''t1'' (close_with 45) tab_store) = Inr [Some 30, Some 15, None]
   \<and> totals_after (close_account_all_orders ''t1'' (close_with 45) tab_store) \<noteq> Inr [0, 0, 5]
   \<and> totals_after (close_account ''t1'' (close_with 45) tab_store) = Inr [0, 20, 10]
   \<and> totals_after (close_account ''t1'' (close_with 45) tab_store) \<noteq> Inr [0, 0, 5]
   \<and> totals_after (close_account_all_orders ''t1'' (close_with 100) tab_store) = Inr [0, 0, 0]
   \<and> discounts_after (close_account_all_orders ''t1'' (close_with 100) tab_store) = Inr [Some 30, Some 20, Some 10]"
  by (simp add: close_defs close_all_defs tab_store_def tab_order_def close_with_def totals_after_def
      discounts_after_def)

subsection \<open>The order counter\<close>




























end
